theory Spec2Isabelle
  imports Complex_Main
begin

section \<open>Python values, exceptions and attribute access\<close>

text \<open>
  The codec of parserrtm keeps every decoded field as an attribute of one Python object
  (\<^verbatim>\<open>Input\<close>, with its subclasses \<^verbatim>\<open>InputLW\<close> and \<^verbatim>\<open>InputSW\<close>). A field holds an
  integer, a float, a string, or a list of such values (a list of lists for doubly nested
  records). Python's unbounded integers are \<open>int\<close>. A float is modelled by the real
  number it denotes: the code only ever compares a field with an integer literal, which
  Python does exactly for every finite float; NaN and the infinities are outside the model.
  The reader and the order functions are modelled on values: \<^verbatim>\<open>read_input_rrtm\<close> and
  \<^verbatim>\<open>read_in_cld_rrtm\<close> assign every field afresh before they append to it, so every list
  they append to is one they made. The writer pops from list objects, which several
  fields may hold; it is modelled over a store.
\<close>

datatype pyval = VInt int | VFloat real | VStr string | VList "pyval list"

text \<open>The values a line decoder of the Fortran-format library returns: never a list.\<close>

datatype scalar = SInt int | SFloat real | SStr string

fun of_scalar :: "scalar \<Rightarrow> pyval" where
  "of_scalar (SInt n) = VInt n"
| "of_scalar (SFloat x) = VFloat x"
| "of_scalar (SStr s) = VStr s"

text \<open>
  Every exception the modelled code can raise is a value. \<open>LibraryError\<close> stands for
  whatever the external Fortran-format reader or writer raises on a line or a value list
  it cannot handle.
\<close>

datatype error =
    AttributeError string
  | KeyError string
  | NameError string
  | UnboundLocalError string
  | TypeError
  | IndexError
  | NotImplementedError
  | IOError
  | ValueError
  | LibraryError

definition bnd :: "error + 'a \<Rightarrow> ('a \<Rightarrow> error + 'b) \<Rightarrow> error + 'b" where
  "bnd m f = (case m of Inl e \<Rightarrow> Inl e | Inr x \<Rightarrow> f x)"

text \<open>
  The object: its field attributes, and the transient read cursor (\<^verbatim>\<open>self.lines\<close>,
  \<^verbatim>\<open>self.read_i\<close>). The cursor attributes never clash with a field name of a schema, so
  they are kept apart from the fields. \<open>lines\<close> is \<open>None\<close> while the attribute does not
  exist (before a read and after \<^verbatim>\<open>del self.lines\<close>).
\<close>

record input =
  attrs :: "string \<Rightarrow> pyval option"
  lines :: "string list option"
  read_i :: nat

text \<open>\<^verbatim>\<open>getattr(self, name)\<close>, and \<^verbatim>\<open>setattr(self, name, v)\<close>.\<close>

definition attr :: "input \<Rightarrow> string \<Rightarrow> error + pyval" where
  "attr self name =
     (case attrs self name of None \<Rightarrow> Inl (AttributeError name) | Some v \<Rightarrow> Inr v)"

definition setattr :: "input \<Rightarrow> string \<Rightarrow> pyval \<Rightarrow> input" where
  "setattr self name v = self\<lparr>attrs := (attrs self)(name \<mapsto> v)\<rparr>"

text \<open>\<^verbatim>\<open>v == k\<close> and \<^verbatim>\<open>v > k\<close> for an integer literal \<open>k\<close>; ordering a string or a list
  against an integer raises TypeError, equality is just false.\<close>

fun py_eq :: "pyval \<Rightarrow> int \<Rightarrow> bool" where
  "py_eq (VInt n) k = (n = k)"
| "py_eq (VFloat x) k = (x = of_int k)"
| "py_eq (VStr s) k = False"
| "py_eq (VList xs) k = False"

fun py_gt :: "pyval \<Rightarrow> int \<Rightarrow> error + bool" where
  "py_gt (VInt n) k = Inr (k < n)"
| "py_gt (VFloat x) k = Inr (of_int k < x)"
| "py_gt (VStr s) k = Inl TypeError"
| "py_gt (VList xs) k = Inl TypeError"

text \<open>\<^verbatim>\<open>type(v) == list\<close> and \<^verbatim>\<open>len(v)\<close>.\<close>

fun is_list :: "pyval \<Rightarrow> bool" where
  "is_list (VList xs) = True"
| "is_list v = False"

fun py_len :: "pyval \<Rightarrow> error + nat" where
  "py_len (VList xs) = Inr (length xs)"
| "py_len (VStr s) = Inr (length s)"
| "py_len v = Inl TypeError"

text \<open>\<^verbatim>\<open>range(v)\<close> and \<^verbatim>\<open>range(a, v + c)\<close>: the bound must be an integer (a float raises
  TypeError in \<^verbatim>\<open>range\<close>, a string or list already in the arithmetic).\<close>

definition py_range :: "int \<Rightarrow> int \<Rightarrow> int list" where
  "py_range a b = [a..b - 1]"

fun as_int :: "pyval \<Rightarrow> error + int" where
  "as_int (VInt n) = Inr n"
| "as_int v = Inl TypeError"

text \<open>A \<^verbatim>\<open>for\<close> loop over a list whose body may raise: the first exception ends it.\<close>

fun for_each :: "'a list \<Rightarrow> ('a \<Rightarrow> 's \<Rightarrow> error + 's) \<Rightarrow> 's \<Rightarrow> error + 's" where
  "for_each [] body s = Inr s"
| "for_each (x # xs) body s =
     (case body x s of Inl e \<Rightarrow> Inl e | Inr s' \<Rightarrow> for_each xs body s')"

text \<open>Decimal rendering of an integer, as an f-string renders it.\<close>

fun str_nat :: "nat \<Rightarrow> string" where
  "str_nat n =
     (if n < 10 then [''0123456789'' ! n]
      else str_nat (n div 10) @ [''0123456789'' ! (n mod 10)])"

definition str_int :: "int \<Rightarrow> string" where
  "str_int i = (if i < 0 then ''-'' @ str_nat (nat (- i)) else str_nat (nat i))"

section \<open>Record order (longwave.py and shortwave.py)\<close>

text \<open>
  \<^verbatim>\<open>get_logical_record_order\<close> and \<^verbatim>\<open>get_explicit_record_order\<close> are the same text,
  character for character, in \<^verbatim>\<open>InputLW\<close> and \<^verbatim>\<open>InputSW\<close>; one definition models both.
  \<^verbatim>\<open>records\<close> is only bound inside the two \<^verbatim>\<open>file\<close> branches, so any other file kind
  reaches \<^verbatim>\<open>return records\<close> with the local unbound.
\<close>

definition get_logical_record_order :: "input \<Rightarrow> string \<Rightarrow> error + string list" where
  "get_logical_record_order self file =
    (if file = ''input_rrtm'' then
       bnd (attr self ''IATM'') (\<lambda>IATM.
       if py_eq IATM 0 then
         bnd (attr self ''NMOL'') (\<lambda>NMOL. bnd (py_gt NMOL 7) (\<lambda>more_mol.
         bnd (attr self ''IXSECT'') (\<lambda>IXSECT.
         let records = [''1.1'', ''1.2'', ''1.4'', ''2.1'', ''2.1.1'', ''2.1.2'']
                         @ (if more_mol then [''2.1.3''] else []) in
         if py_eq IXSECT 1 then
           bnd (attr self ''IXMOLS'') (\<lambda>IXMOLS. bnd (py_gt IXMOLS 7) (\<lambda>more_xs.
           Inr (records @ [''2.2'', ''2.2.1'', ''2.2.2'', ''2.2.3'', ''2.2.4'']
                  @ (if more_xs then [''2.2.5''] else []))))
         else Inr records)))
       else if py_eq IATM 1 then
         bnd (attr self ''IBMAX'') (\<lambda>IBMAX.
         bnd (attr self ''MODEL'') (\<lambda>MODEL.
         bnd (attr self ''IXSECT'') (\<lambda>IXSECT.
         let records = [''1.1'', ''1.2'', ''1.4'', ''3.1'', ''3.2'']
                         @ (if py_eq IBMAX 0 then [''3.3A''] else [''3.3B''])
                         @ (if py_eq MODEL 0 then [''3.4'', ''3.5'', ''3.6.1''] else []) in
         if py_eq IXSECT 1 then
           bnd (attr self ''IPRFL'') (\<lambda>IPRFL.
           Inr (records @ [''3.7'', ''3.7.1'']
                  @ (if py_eq IPRFL 0 then [''3.8'', ''3.8.1'', ''3.8.2''] else [])))
         else Inr records)))
       else Inr [''1.1'', ''1.2'', ''1.4''])
     else if file = ''in_cld_rrtm'' then
       bnd (attr self ''INFLAG'') (\<lambda>INFLAG.
       if py_eq INFLAG 1 \<or> py_eq INFLAG 2 then Inr [''C1.1'', ''C1.2'']
       else if py_eq INFLAG 0 \<or> py_eq INFLAG 10 then
         bnd (attr self ''LAY'') (\<lambda>LAY. bnd (py_len LAY) (\<lambda>n.
         for_each [0..<n]
           (\<lambda>i records.
              bnd (attr self ''INFLAG'') (\<lambda>INFLAG.
              if py_eq INFLAG 10 then Inl NotImplementedError
              else Inr (records @ [''C1.3''])))
           [''C1.1'']))
       else Inr [''C1.1''])
     else Inl (UnboundLocalError ''records''))"

text \<open>The loops of the explicit order read their branching field inside the body, so a
  loop that runs zero times never touches it.\<close>

definition get_explicit_record_order :: "input \<Rightarrow> string \<Rightarrow> error + string list" where
  "get_explicit_record_order self file =
    (if file = ''input_rrtm'' then
       bnd (attr self ''IATM'') (\<lambda>IATM.
       if py_eq IATM 0 then
         bnd (attr self ''NLAYRS'') (\<lambda>NLAYRS. bnd (as_int NLAYRS) (\<lambda>n.
         bnd (for_each (py_range 0 n)
                (\<lambda>i records.
                   bnd (attr self ''NMOL'') (\<lambda>NMOL. bnd (py_gt NMOL 7) (\<lambda>more_mol.
                   Inr (records @ [''2.1.1'', ''2.1.2'']
                          @ (if more_mol then [''2.1.3''] else [])))))
                [''1.1'', ''1.2'', ''1.4'', ''2.1'']) (\<lambda>records.
         bnd (attr self ''IXSECT'') (\<lambda>IXSECT.
         if py_eq IXSECT 1 then
           bnd (attr self ''NLAYRS'') (\<lambda>NLAYRS. bnd (as_int NLAYRS) (\<lambda>n.
           for_each (py_range 0 n)
             (\<lambda>i records.
                bnd (attr self ''IXMOLS'') (\<lambda>IXMOLS. bnd (py_gt IXMOLS 7) (\<lambda>more_xs.
                Inr (records @ [''2.2.3'', ''2.2.4'']
                       @ (if more_xs then [''2.2.5''] else [])))))
             (records @ [''2.2'', ''2.2.1'', ''2.2.2''])))
         else Inr records))))
       else if py_eq IATM 1 then
         bnd (attr self ''IBMAX'') (\<lambda>IBMAX.
         bnd (attr self ''MODEL'') (\<lambda>MODEL.
         bnd (if py_eq MODEL 0 then
                bnd (attr self ''IMMAX'') (\<lambda>IMMAX. bnd (as_int IMMAX) (\<lambda>n.
                for_each (py_range 0 n)
                  (\<lambda>i records. Inr (records @ [''3.5'', ''3.6.1'']))
                  ([''1.1'', ''1.2'', ''1.4'', ''3.1'', ''3.2'']
                     @ (if py_eq IBMAX 0 then [''3.3A''] else [''3.3B'']) @ [''3.4''])))
              else Inr ([''1.1'', ''1.2'', ''1.4'', ''3.1'', ''3.2'']
                     @ (if py_eq IBMAX 0 then [''3.3A''] else [''3.3B''])))
           (\<lambda>records.
         bnd (attr self ''IXSECT'') (\<lambda>IXSECT.
         if py_eq IXSECT 1 then
           bnd (attr self ''IPRFL'') (\<lambda>IPRFL.
           if py_eq IPRFL 0 then
             bnd (attr self ''LAYX'') (\<lambda>LAYX. bnd (as_int LAYX) (\<lambda>n.
             for_each (py_range 0 n)
               (\<lambda>i records. Inr (records @ [''3.8.1'', ''3.8.2'']))
               (records @ [''3.7'', ''3.7.1'', ''3.8''])))
           else Inr (records @ [''3.7'', ''3.7.1'']))
         else Inr records))))
       else Inr [''1.1'', ''1.2'', ''1.4''])
     else if file = ''in_cld_rrtm'' then
       bnd (attr self ''INFLAG'') (\<lambda>INFLAG.
       if py_eq INFLAG 1 \<or> py_eq INFLAG 2 then
         bnd (attr self ''LAY'') (\<lambda>LAY.
         bnd (if \<not> is_list LAY then Inr 1 else py_len LAY) (\<lambda>n.
         for_each [0..<n] (\<lambda>i records. Inr (records @ [''C1.2''])) [''C1.1'']))
       else if py_eq INFLAG 0 \<or> py_eq INFLAG 10 then
         bnd (attr self ''LAY'') (\<lambda>LAY.
         bnd (if \<not> is_list LAY then Inr 1 else py_len LAY) (\<lambda>n.
         for_each [0..<n]
           (\<lambda>i records.
              bnd (attr self ''INFLAG'') (\<lambda>INFLAG.
              if py_eq INFLAG 10 then Inl NotImplementedError
              else Inr (records @ [''C1.3''])))
           [''C1.1'']))
       else Inr [''C1.1''])
     else Inl (UnboundLocalError ''records''))"

text \<open>\<^verbatim>\<open>Input.islist\<close> and \<^verbatim>\<open>Input.record_len\<close> (Input.py): which records repeat, and
  how often. \<^verbatim>\<open>record_len\<close> hands back the raw attribute, whatever its type.\<close>

definition islist :: "string \<Rightarrow> bool" where
  "islist rec \<longleftrightarrow> rec \<in> set [''2.1.1'', ''2.1.2'', ''2.1.3'', ''2.2.3'', ''2.2.4'', ''2.2.5'',
                           ''3.5'', ''3.6.1'', ''3.8.1'', ''3.8.2'', ''C1.2'', ''C1.3'', ''C1.3a'']"

definition record_len :: "input \<Rightarrow> string \<Rightarrow> error + pyval" where
  "record_len self rec =
    (if rec \<in> set [''2.1.1'', ''2.1.2'', ''2.1.3'', ''2.2.3'', ''2.2.4'', ''2.2.5'']
       then attr self ''NLAYRS''
     else if rec \<in> set [''3.5'', ''3.6.1''] then attr self ''IMMAX''
     else if rec \<in> set [''3.8.1'', ''3.8.2''] then attr self ''LAYX''
     else if rec \<in> set [''C1.2'', ''C1.3''] then
       bnd (attr self ''LAY'') (\<lambda>LAY.
       if \<not> is_list LAY then Inr (VInt 1) else bnd (py_len LAY) (\<lambda>n. Inr (VInt (int n))))
     else if rec = ''C1.3a'' then Inr (VInt 15)
     else Inl (KeyError rec))"

lemma bnd_simps [simp]: "bnd (Inl e) f = Inl e" "bnd (Inr x) f = f x"
  by (simp_all add: bnd_def)

lemma bnd_cong [fundef_cong]:
  "m = m' \<Longrightarrow> (\<And>x. m' = Inr x \<Longrightarrow> f x = f' x) \<Longrightarrow> bnd m f = bnd m' f'"
  by (cases m') auto

section \<open>The longwave schema (longwave.py)\<close>

text \<open>
  \<^verbatim>\<open>Input\<close> is an abstract class: the engine calls \<^verbatim>\<open>self.get_format(rec)\<close> and
  \<^verbatim>\<open>self.get_fields(rec)\<close>, which a variant supplies. The engine below takes them as a
  \<open>schema\<close>; \<open>InputLW\<close> is the longwave variant. Both methods build a dictionary keyed
  by record id and look \<^verbatim>\<open>rec\<close> up in it (KeyError for an id that is not a key); an entry
  that is a function is then called on the object.
\<close>

record schema =
  get_format :: "input \<Rightarrow> string \<Rightarrow> error + string"
  get_fields :: "input \<Rightarrow> string \<Rightarrow> error + string list"

definition xs_format :: "pyval \<Rightarrow> string \<Rightarrow> string \<Rightarrow> string" where
  "xs_format flag short long = ''('' @ (if py_eq flag 0 then short else long) @ '')''"

definition InputLW_get_format :: "input \<Rightarrow> string \<Rightarrow> error + string" where
  "InputLW_get_format self rec =
    (if rec = ''1.1'' then Inr ''(1A80)''
     else if rec = ''1.2'' then Inr ''(49X, I1, 19X, I1, 12X, I1, I2, 2X, I3, 4X, I1)''
     else if rec = ''1.4'' then Inr ''(F10.3,  1X, I1, 2X, I1, 16F5.3)''
     else if rec = ''2.1'' then Inr ''(1X,I1, I3, I5)''
     else if rec = ''2.1.1'' then
       bnd (attr self ''IFORM'') (\<lambda>IFORM.
       Inr (''('' @ (if py_eq IFORM 0 then ''F10.4'' else ''ES15.7'')
              @ '', F10.4, 23X, F8.3, F7.2,  7X, F8.3,   F7.2)''))
     else if rec = ''2.1.2'' then
       bnd (attr self ''IFORM'') (\<lambda>IFORM. Inr (xs_format IFORM ''8ES10.3'' ''8ES15.7''))
     else if rec = ''2.1.3'' then
       bnd (attr self ''IFORM'') (\<lambda>IFORM. Inr (xs_format IFORM ''8ES10.3'' ''8ES15.7''))
     else if rec = ''2.2'' then Inr ''(I5)''
     else if rec = ''2.2.1'' then Inr ''(7A10,(/,8A10))''
     else if rec = ''2.2.2'' then Inr ''(1X,I1)''
     else if rec = ''2.2.3'' then Inr ''(A1)''
     else if rec = ''2.2.4'' then
       bnd (attr self ''IFRMX'') (\<lambda>IFRMX. Inr (xs_format IFRMX ''7ES10.3'' ''7ES15.7''))
     else if rec = ''2.2.5'' then
       bnd (attr self ''IFRMX'') (\<lambda>IFRMX. Inr (xs_format IFRMX ''8ES10.3'' ''8ES15.7''))
     else if rec = ''3.1'' then Inr ''(I5, 5X, I5, 5X, I5, I5, I5, 3X, I2, F10.3, 20X, F10.3)''
     else if rec = ''3.2'' then Inr ''(F10.3,  F10.3)''
     else if rec = ''3.3A'' then Inr ''(F10.3,  F10.3,  F10.3, F10.3, F10.3)''
     else if rec = ''3.3B'' then Inr ''(8F10.3)''
     else if rec = ''3.4'' then Inr ''(I5, 3A8)''
     else if rec = ''3.5'' then Inr ''(F10.3, F10.3, F10.3, 5X, A1, A1, 3X, 28A1)''
     else if rec = ''3.6.1'' then Inr ''(8ES10.3)''
     else if rec = ''3.7'' then Inr ''(I5, I5, I5)''
     else if rec = ''3.7.1'' then Inr ''(7A10,(/,8A10))''
     else if rec = ''3.8'' then Inr ''(I5, I5, A50)''
     else if rec = ''3.8.1'' then Inr ''(F10.3, 5X, 35A1)''
     else if rec = ''3.8.2'' then Inr ''(8ES10.3)''
     else if rec = ''C1.1'' then Inr ''(3X, I2,  4X, I1,  4X, I1)''
     else if rec = ''C1.2'' then Inr ''(A1, 1X, I3, ES10.3, ES10.3, ES10.3, ES10.3, ES10.3)''
     else if rec = ''C1.3'' then Inr ''(A1, 1X, I3, ES10.3, ES10.3, ES10.3, ES10.3, ES10.3)''
     else if rec = ''C1.3A'' then Inr ''(15X, E10.5, E10.5, 16E10.5)''
     else Inl (KeyError rec))"

text \<open>\<^verbatim>\<open>[f'NAME({I})' for I in range(a, b)]\<close>.\<close>

definition indexed :: "string \<Rightarrow> int \<Rightarrow> int \<Rightarrow> string list" where
  "indexed name a b = map (\<lambda>I. name @ ''('' @ str_int I @ '')'') (py_range a b)"

definition InputLW_get_fields :: "input \<Rightarrow> string \<Rightarrow> error + string list" where
  "InputLW_get_fields self rec =
    (if rec = ''1.1'' then Inr [''CXID'']
     else if rec = ''1.2'' then
       Inr [''IATM'', ''IXSECT'', ''ISCAT'', ''NUMANGS'', ''IOUT'', ''ICLD'']
     else if rec = ''1.4'' then
       Inr ([''TBOUND'', ''IEMIS'', ''IREFLECT''] @ indexed ''SEMISS'' 1 (16 + 1))
     else if rec = ''2.1'' then Inr [''IFORM'', ''NLAYRS'', ''NMOL'']
     else if rec = ''2.1.1'' then
       Inr [''PAVE'', ''TAVE'', ''PZ(L-1)'', ''TZ(L-1)'', ''PZ(L)'', ''TZ(L)'']
     else if rec = ''2.1.2'' then
       Inr [''WKL(1,L)'', ''WKL(2,L)'', ''WKL(3,L)'', ''WKL(4,L)'', ''WKL(5,L)'',
            ''WKL(6,L)'', ''WKL(7,L)'', ''WBROAD(L)'']
     else if rec = ''2.1.3'' then
       bnd (attr self ''NMOL'') (\<lambda>NMOL. bnd (as_int NMOL) (\<lambda>n.
       Inr (map (\<lambda>M. ''WKL('' @ str_int M @ '',L)'') (py_range 0 (n - 7)))))
     else if rec = ''2.2'' then Inr [''IXMOLS'']
     else if rec = ''2.2.1'' then
       bnd (attr self ''IXMOLS'') (\<lambda>IXMOLS. bnd (as_int IXMOLS) (\<lambda>n.
       Inr (indexed ''XSNAME'' 1 (n + 1))))
     else if rec = ''2.2.2'' then Inr [''IFRMX'']
     else if rec = ''2.2.3'' then Inr [''_'']
     else if rec = ''2.2.4'' then Inr (indexed ''XAMNT'' 1 8)
     else if rec = ''3.1'' then
       Inr [''MODEL'', ''IBMAX'', ''NOPRNT'', ''NMOL'', ''IPUNCH'', ''MUNITS'', ''RE'', ''CO2MX'']
     else if rec = ''3.2'' then Inr [''HBOUND'', ''HTOA'']
     else if rec = ''3.3A'' then Inr [''AVTRAT'', ''TDIFF1'', ''TDIFF2'', ''ALTD1'', ''ALTD2'']
     else if rec = ''3.3B'' then
       bnd (attr self ''IBMAX'') (\<lambda>IBMAX. bnd (as_int IBMAX) (\<lambda>n.
       Inr (indexed ((if 0 < n then ''Z'' else ''P'') @ ''BND'') 1 (\<bar>n\<bar> + 1))))
     else if rec = ''3.4'' then Inr [''IMMAX'', ''HMOD'']
     else if rec = ''3.5'' then
       Inr ([''ZM'', ''PM'', ''TM'', ''JCHARP'', ''JCHART''] @ indexed ''JCHAR'' 1 (28 + 1))
     else if rec = ''3.6.1'' then
       bnd (attr self ''NMOL'') (\<lambda>NMOL. bnd (as_int NMOL) (\<lambda>n.
       Inr (indexed ''VMOL'' 1 (n + 1))))
     else if rec = ''3.7'' then Inr [''IXMOLS'', ''IPRFL'', ''IXSBIN'']
     else if rec = ''3.7.1'' then
       bnd (attr self ''IXMOLS'') (\<lambda>IXMOLS. bnd (as_int IXMOLS) (\<lambda>n.
       Inr (indexed ''XSNAME'' 1 (n + 1))))
     else if rec = ''3.8'' then Inr [''LAYX'', ''IZORP'', ''XTITLE'']
     else if rec = ''3.8.1'' then Inr ([''ZORP''] @ indexed ''JCHARX'' 1 (28 + 1))
     else if rec = ''3.8.2'' then
       bnd (attr self ''IXMOLS'') (\<lambda>IXMOLS. bnd (as_int IXMOLS) (\<lambda>n.
       Inr (indexed ''DENX'' 1 (n + 1))))
     else if rec = ''C1.1'' then Inr [''INFLAG'', ''ICEFLAG'', ''LIQFLAG'']
     else if rec = ''C1.2'' then
       Inr [''TESTCHAR'', ''LAY'', ''CLDFRAC'', ''CWP'', ''FRACICE'', ''EFFSIZEICE'',
            ''EFFSIZELIQ'']
     else if rec = ''C1.3'' then
       bnd (attr self ''NSTR'') (\<lambda>NSTR. bnd (as_int NSTR) (\<lambda>n.
       Inr ([''TESTCHAR'', ''LAY'', ''CLDFRAC'', ''TAUCLD'', ''SINGLE-SCATTERING ALBEDO'']
              @ map (\<lambda>N. ''PMOM('' @ str_int N @ '')'') (py_range 0 n))))
     else if rec = ''C1.3A'' then
       bnd (attr self ''NSTR'') (\<lambda>NSTR. bnd (as_int NSTR) (\<lambda>n.
       Inr ([''TAUCLD'', ''SINGLE-SCATTERING ALBEDO'']
              @ map (\<lambda>N. ''PMOM('' @ str_int N @ '')'') (py_range 0 n))))
     else Inl (KeyError rec))"

definition InputLW :: schema where
  "InputLW = \<lparr>get_format = InputLW_get_format, get_fields = InputLW_get_fields\<rparr>"

section \<open>The sequential reader (Input.py)\<close>

text \<open>
  The line decoder is \<^verbatim>\<open>FortranRecordReader(fmt).read(s)\<close> of the external fortranformat
  package: a parameter \<open>rd\<close> of the model, from a format and a line to the decoded
  scalars or the library's exception. A file is the list of its lines, as
  \<^verbatim>\<open>readlines()\<close> returns it. When a read raises, the object is left half updated in
  Python; the model returns the exception alone.
\<close>

type_synonym reader = "string \<Rightarrow> string \<Rightarrow> error + scalar list"

text \<open>\<^verbatim>\<open>self.lines[self.read_i]\<close>.\<close>

definition line_at :: "input \<Rightarrow> error + string" where
  "line_at self =
     (case lines self of
        None \<Rightarrow> Inl (AttributeError ''lines'')
      | Some ls \<Rightarrow> if read_i self < length ls then Inr (ls ! read_i self) else Inl IndexError)"

text \<open>A list value as it is, any other value wrapped: \<^verbatim>\<open>if type(l) != list: l = [l]\<close>.\<close>

fun as_list :: "pyval \<Rightarrow> pyval list" where
  "as_list (VList xs) = xs"
| "as_list v = [v]"

text \<open>One round of \<^verbatim>\<open>for key,val in zip(names,fields)\<close> in \<^verbatim>\<open>read_record\<close>. In mode
  \<^verbatim>\<open>'append depth'\<close>, \<^verbatim>\<open>l[-1]\<close> needs a non-empty sequence and \<^verbatim>\<open>l[-1] = l2\<close> a list.\<close>

definition assign :: "string \<Rightarrow> string \<times> scalar \<Rightarrow> input \<Rightarrow> error + input" where
  "assign mode kv self =
    (let key = fst kv; val = of_scalar (snd kv) in
     if mode = ''new'' then Inr (setattr self key val)
     else if mode = ''append'' then
       bnd (attr self key) (\<lambda>l. Inr (setattr self key (VList (as_list l @ [val]))))
     else if mode = ''append depth'' then
       bnd (attr self key) (\<lambda>l.
       case l of
         VList xs \<Rightarrow>
           if xs = [] then Inl IndexError
           else Inr (setattr self key (VList (butlast xs @ [VList (as_list (last xs) @ [val])])))
       | VStr s \<Rightarrow> if s = [] then Inl IndexError else Inl TypeError
       | _ \<Rightarrow> Inl TypeError)
     else Inr self)"

definition read_record :: "reader \<Rightarrow> schema \<Rightarrow> string \<Rightarrow> string \<Rightarrow> input \<Rightarrow> error + input" where
  "read_record rd sch rec mode self =
     bnd (line_at self) (\<lambda>s.
     bnd (get_format sch self rec) (\<lambda>fmt.
     bnd (get_fields sch self rec) (\<lambda>names.
     bnd (rd fmt s) (\<lambda>fields.
     bnd (for_each (zip names fields) (assign mode) self) (\<lambda>self.
     Inr (self\<lparr>read_i := read_i self + 1\<rparr>))))))"

text \<open>The dictionary \<^verbatim>\<open>record\<close> of \<^verbatim>\<open>read_greedy_record\<close>, in insertion order.\<close>

fun dict_set :: "string \<times> scalar \<Rightarrow> (string \<times> scalar) list \<Rightarrow> (string \<times> scalar) list" where
  "dict_set kv [] = [kv]"
| "dict_set kv (p # ps) = (if fst p = fst kv then kv # ps else p # dict_set kv ps)"

text \<open>The \<^verbatim>\<open>while len(record.keys()) < inames\<close> loop. Each round reads one more line, so
  the loop ends at the latest with the IndexError past the last line.\<close>

function greedy_loop ::
  "reader \<Rightarrow> string \<Rightarrow> nat \<Rightarrow> string list \<Rightarrow> (string \<times> scalar) list \<Rightarrow> input
     \<Rightarrow> error + (string \<times> scalar) list \<times> input" where
  "greedy_loop rd fmt inames names record self =
    (if length record < inames then
       (let names = filter (\<lambda>var. var \<notin> set (map fst record)) names in
        case line_at self of
          Inl e \<Rightarrow> Inl e
        | Inr s \<Rightarrow>
            (case rd fmt s of
               Inl e \<Rightarrow> Inl e
             | Inr decoded \<Rightarrow>
                 greedy_loop rd fmt inames names (fold dict_set (zip names decoded) record)
                   (self\<lparr>read_i := read_i self + 1\<rparr>)))
     else Inr (record, self))"
  by pat_completeness auto
termination
  by (relation "measure (\<lambda>(rd, fmt, inames, names, record, self).
        case lines self of None \<Rightarrow> 0 | Some ls \<Rightarrow> length ls - read_i self)")
     (auto simp: line_at_def split: option.splits if_splits)

declare greedy_loop.simps [simp del]

definition read_greedy_record :: "reader \<Rightarrow> schema \<Rightarrow> string \<Rightarrow> input \<Rightarrow> error + input" where
  "read_greedy_record rd sch rec self =
     bnd (line_at self) (\<lambda>s.
     bnd (get_format sch self rec) (\<lambda>fmt.
     bnd (get_fields sch self rec) (\<lambda>names.
     bnd (rd fmt s) (\<lambda>fields.
     bnd (greedy_loop rd fmt (length names) names (fold dict_set (zip names fields) [])
            (self\<lparr>read_i := read_i self + 1\<rparr>)) (\<lambda>(record, self).
     Inr (fold (\<lambda>kv self. setattr self (fst kv) (of_scalar (snd kv))) record self))))))"

text \<open>
  \<^verbatim>\<open>get_input_rrtm_file_bounds\<close>. \<^verbatim>\<open>s[0]\<close> raises IndexError on an empty string (which
  \<^verbatim>\<open>readlines()\<close> never yields). The two lists are compared only when both are singletons,
  where Python's list order is the order of their elements. The failure branch builds its
  message from \<^verbatim>\<open>fpath\<close>, which is neither a parameter nor a global of the module: evaluating
  the f-string raises NameError before the IOError is constructed.
\<close>

definition get_input_rrtm_file_bounds :: "string list \<Rightarrow> string \<Rightarrow> error + nat \<times> nat" where
  "get_input_rrtm_file_bounds ls file =
    (if [] \<in> set ls then Inl IndexError
     else
       let starts = filter (\<lambda>i. hd (ls ! i) = CHR ''$'') [0..<length ls];
           ends = filter (\<lambda>i. hd (ls ! i) = CHR ''%'') [0..<length ls];
           starts = (if file = ''in_cld_rrtm'' then [0] else starts)
       in if length starts = length ends \<and> length ends = 1 \<and> hd starts < hd ends
          then Inr (hd starts, hd ends)
          else Inl (NameError ''fpath''))"

text \<open>\<^verbatim>\<open>mode='new' if i==0 else 'append'\<close>.\<close>

definition mode_of :: "int \<Rightarrow> string" where
  "mode_of i = (if i = 0 then ''new'' else ''append'')"

text \<open>The bodies of the four \<^verbatim>\<open>for i in range(...)\<close> loops of \<^verbatim>\<open>read_input_rrtm\<close>.\<close>

definition read_layer :: "reader \<Rightarrow> schema \<Rightarrow> int \<Rightarrow> input \<Rightarrow> error + input" where
  "read_layer rd sch i self =
     bnd (read_record rd sch ''2.1.1'' (mode_of i) self) (\<lambda>self.
     bnd (read_record rd sch ''2.1.2'' (mode_of i) self) (\<lambda>self.
     bnd (attr self ''NMOL'') (\<lambda>NMOL. bnd (py_gt NMOL 7) (\<lambda>more_mol.
     if more_mol then read_record rd sch ''2.1.3'' (mode_of i) self else Inr self))))"

definition read_xs_layer :: "reader \<Rightarrow> schema \<Rightarrow> int \<Rightarrow> input \<Rightarrow> error + input" where
  "read_xs_layer rd sch i self =
     bnd (read_record rd sch ''2.2.3'' (mode_of i) self) (\<lambda>self.
     bnd (read_record rd sch ''2.2.4'' (mode_of i) self) (\<lambda>self.
     bnd (attr self ''IXMOLS'') (\<lambda>IXMOLS. bnd (py_gt IXMOLS 7) (\<lambda>more_xs.
     if more_xs then read_record rd sch ''2.2.5'' (mode_of i) self else Inr self))))"

definition read_level :: "reader \<Rightarrow> schema \<Rightarrow> int \<Rightarrow> input \<Rightarrow> error + input" where
  "read_level rd sch i self =
     bnd (read_record rd sch ''3.5'' (mode_of i) self) (\<lambda>self.
     read_record rd sch ''3.6.1'' (mode_of i) self)"

definition read_xs_level :: "reader \<Rightarrow> schema \<Rightarrow> int \<Rightarrow> input \<Rightarrow> error + input" where
  "read_xs_level rd sch i self =
     bnd (read_record rd sch ''3.8.1'' (mode_of i) self) (\<lambda>self.
     read_record rd sch ''3.8.2'' (mode_of i) self)"

text \<open>\<^verbatim>\<open>for i in range(self.X): body\<close>.\<close>

definition for_range ::
  "string \<Rightarrow> (int \<Rightarrow> input \<Rightarrow> error + input) \<Rightarrow> input \<Rightarrow> error + input" where
  "for_range name body self =
     bnd (attr self name) (\<lambda>v. bnd (as_int v) (\<lambda>n. for_each (py_range 0 n) body self))"

text \<open>The branch \<^verbatim>\<open>if self.IATM == 0\<close> of \<^verbatim>\<open>read_input_rrtm\<close>, and the branch
  \<^verbatim>\<open>elif self.IATM == 1\<close>.\<close>

definition read_user_profile :: "reader \<Rightarrow> schema \<Rightarrow> input \<Rightarrow> error + input" where
  "read_user_profile rd sch self =
     bnd (read_record rd sch ''2.1'' ''new'' self) (\<lambda>self.
     bnd (for_range ''NLAYRS'' (read_layer rd sch) self) (\<lambda>self.
     bnd (attr self ''IXSECT'') (\<lambda>IXSECT.
     if py_eq IXSECT 1 then
       bnd (read_record rd sch ''2.2'' ''new'' self) (\<lambda>self.
       bnd (read_record rd sch ''2.2.1'' ''new'' self) (\<lambda>self.
       bnd (read_record rd sch ''2.2.2'' ''new'' self) (\<lambda>self.
       for_range ''NLAYRS'' (read_xs_layer rd sch) self)))
     else Inr self)))"

definition read_atmosphere :: "reader \<Rightarrow> schema \<Rightarrow> input \<Rightarrow> error + input" where
  "read_atmosphere rd sch self =
     bnd (read_record rd sch ''3.1'' ''new'' self) (\<lambda>self.
     bnd (read_record rd sch ''3.2'' ''new'' self) (\<lambda>self.
     bnd (attr self ''IBMAX'') (\<lambda>IBMAX.
     bnd (if py_eq IBMAX 0 then read_record rd sch ''3.3A'' ''new'' self
          else read_greedy_record rd sch ''3.3B'' self) (\<lambda>self.
     bnd (attr self ''MODEL'') (\<lambda>MODEL.
     bnd (if py_eq MODEL 0 then
            bnd (read_record rd sch ''3.4'' ''new'' self) (\<lambda>self.
            for_range ''IMMAX'' (read_level rd sch) self)
          else Inr self) (\<lambda>self.
     bnd (attr self ''IXSECT'') (\<lambda>IXSECT.
     if py_eq IXSECT 1 then
       bnd (read_record rd sch ''3.7'' ''new'' self) (\<lambda>self.
       bnd (read_record rd sch ''3.7.1'' ''new'' self) (\<lambda>self.
       bnd (attr self ''IPRFL'') (\<lambda>IPRFL.
       if py_eq IPRFL 0 then
         bnd (read_record rd sch ''3.8'' ''new'' self) (\<lambda>self.
         for_range ''LAYX'' (read_xs_level rd sch) self)
       else Inr self)))
     else Inr self)))))))"

text \<open>
  \<^verbatim>\<open>read_input_rrtm\<close>, from the lines of the file. A cursor that ends off the end line
  only triggers \<^verbatim>\<open>warnings.warn\<close>, which changes neither the object nor the result.
\<close>

definition read_input_rrtm :: "reader \<Rightarrow> schema \<Rightarrow> string list \<Rightarrow> input \<Rightarrow> error + input" where
  "read_input_rrtm rd sch ls self =
     bnd (get_input_rrtm_file_bounds ls ''input_rrtm'') (\<lambda>(start_i, end_i).
     bnd (read_record rd sch ''1.1'' ''new'' (self\<lparr>lines := Some ls, read_i := start_i\<rparr>)) (\<lambda>self.
     bnd (read_record rd sch ''1.2'' ''new'' self) (\<lambda>self.
     bnd (read_record rd sch ''1.4'' ''new'' self) (\<lambda>self.
     bnd (attr self ''IATM'') (\<lambda>IATM.
     bnd (if py_eq IATM 0 then read_user_profile rd sch self
          else if py_eq IATM 1 then read_atmosphere rd sch self
          else Inr self) (\<lambda>self.
     Inr (self\<lparr>lines := None\<rparr>)))))))"

text \<open>The cursor only ever moves forward by one line per record read.\<close>

lemma assign_cursor:
  "assign mode kv self = Inr self' \<Longrightarrow> read_i self' = read_i self \<and> lines self' = lines self"
  by (auto simp: assign_def setattr_def Let_def bnd_def
      split: if_splits sum.splits pyval.splits)

lemma for_each_assign_cursor:
  "for_each kvs (assign mode) self = Inr self'
     \<Longrightarrow> read_i self' = read_i self \<and> lines self' = lines self"
proof (induction kvs arbitrary: self)
  case Nil
  then show ?case by simp
next
  case (Cons kv kvs)
  then show ?case
    by (auto split: sum.splits dest!: assign_cursor)
qed

lemma read_record_cursor:
  "read_record rd sch rec mode self = Inr self'
     \<Longrightarrow> read_i self' = Suc (read_i self) \<and> lines self' = lines self"
  by (auto simp: read_record_def bnd_def split: sum.splits dest!: for_each_assign_cursor)

lemma for_each_read_record_cursor:
  "for_each xs (\<lambda>i. read_record rd sch rec mode) self = Inr self'
     \<Longrightarrow> read_i self \<le> read_i self'"
proof (induction xs arbitrary: self)
  case Nil
  then show ?case by simp
next
  case (Cons x xs)
  then show ?case
    by (fastforce split: sum.splits dest!: read_record_cursor)
qed

text \<open>
  The body of \<^verbatim>\<open>while self.read_i < end_i\<close> in the branch for \<^verbatim>\<open>INFLAG\<close> 0 or 10 of
  \<^verbatim>\<open>read_in_cld_rrtm\<close>: one more \<^verbatim>\<open>C1.3\<close> line, then for \<^verbatim>\<open>INFLAG == 10\<close> fifteen
  \<^verbatim>\<open>C1.3a\<close> lines.
\<close>

definition read_cloud_band :: "reader \<Rightarrow> schema \<Rightarrow> input \<Rightarrow> error + input" where
  "read_cloud_band rd sch self =
     bnd (read_record rd sch ''C1.3'' ''append'' self) (\<lambda>self.
     bnd (attr self ''INFLAG'') (\<lambda>INFLAG.
     if py_eq INFLAG 10 then
       for_each [0..<15] (\<lambda>i. read_record rd sch ''C1.3a'' ''append depth'') self
     else Inr self))"

lemma read_cloud_band_cursor:
  "read_cloud_band rd sch self = Inr self' \<Longrightarrow> read_i self < read_i self'"
  by (fastforce simp: read_cloud_band_def bnd_def split: sum.splits if_splits
      dest!: read_record_cursor for_each_read_record_cursor)

function cld_loop_12 :: "reader \<Rightarrow> schema \<Rightarrow> nat \<Rightarrow> input \<Rightarrow> error + input" where
  "cld_loop_12 rd sch end_i self =
     (if read_i self < end_i then
        bnd (read_record rd sch ''C1.2'' ''append'' self) (\<lambda>self. cld_loop_12 rd sch end_i self)
      else Inr self)"
  by pat_completeness auto
termination
  by (relation "measure (\<lambda>(rd, sch, end_i, self). end_i - read_i self)")
     (auto dest!: read_record_cursor)

declare cld_loop_12.simps [simp del]

function cld_loop_13 :: "reader \<Rightarrow> schema \<Rightarrow> nat \<Rightarrow> input \<Rightarrow> error + input" where
  "cld_loop_13 rd sch end_i self =
     (if read_i self < end_i then
        bnd (read_cloud_band rd sch self) (\<lambda>self. cld_loop_13 rd sch end_i self)
      else Inr self)"
  by pat_completeness auto
termination
  by (relation "measure (\<lambda>(rd, sch, end_i, self). end_i - read_i self)")
     (auto dest!: read_cloud_band_cursor)

declare cld_loop_13.simps [simp del]

text \<open>
  \<^verbatim>\<open>read_in_cld_rrtm\<close>. The derived field \<^verbatim>\<open>NSTR\<close> is set before the first record is
  read. The message of its ValueError is an f-string over the bare name \<^verbatim>\<open>NUMANGS\<close>, which
  is neither a local nor a global (the field is \<^verbatim>\<open>self.NUMANGS\<close>): evaluating it raises
  NameError before the ValueError is constructed.
\<close>

definition derive_NSTR :: "input \<Rightarrow> error + input" where
  "derive_NSTR self =
     (let self = setattr self ''NSTR'' (VInt 0) in
      bnd (attr self ''ISCAT'') (\<lambda>ISCAT.
      if py_eq ISCAT 1 \<or> py_eq ISCAT 2 then
        bnd (attr self ''NUMANGS'') (\<lambda>NUMANGS.
        if py_eq NUMANGS 0 then Inr (setattr self ''NSTR'' (VInt 4))
        else if py_eq NUMANGS 1 then Inr (setattr self ''NSTR'' (VInt 8))
        else if py_eq NUMANGS 2 then Inr (setattr self ''NSTR'' (VInt 16))
        else Inl (NameError ''NUMANGS''))
      else Inr self))"

definition read_in_cld_rrtm :: "reader \<Rightarrow> schema \<Rightarrow> string list \<Rightarrow> input \<Rightarrow> error + input" where
  "read_in_cld_rrtm rd sch ls self =
     bnd (get_input_rrtm_file_bounds ls ''in_cld_rrtm'') (\<lambda>(start_i, end_i).
     bnd (derive_NSTR (self\<lparr>lines := Some ls, read_i := start_i\<rparr>)) (\<lambda>self.
     bnd (read_record rd sch ''C1.1'' ''new'' self) (\<lambda>self.
     bnd (attr self ''INFLAG'') (\<lambda>INFLAG.
     bnd (if py_eq INFLAG 1 \<or> py_eq INFLAG 2 then
            bnd (read_record rd sch ''C1.2'' ''new'' self) (cld_loop_12 rd sch end_i)
          else if py_eq INFLAG 0 \<or> py_eq INFLAG 10 then
            bnd (read_record rd sch ''C1.3'' ''new'' self) (cld_loop_13 rd sch end_i)
          else Inr self) (\<lambda>self.
     Inr (self\<lparr>lines := None\<rparr>))))))"

section \<open>The writer (Input.py)\<close>

text \<open>
  The line encoder is \<^verbatim>\<open>FortranRecordWriter(fmt).write(vals)\<close> of the external package: a
  parameter \<open>wr\<close>. The file system is a map from path to content; \<^verbatim>\<open>open(fpath,'w')\<close> is
  taken to succeed.

  \<^verbatim>\<open>write_record\<close> pops from list objects, and one list object can be the value of several
  fields: \<^verbatim>\<open>from_dict\<close> stores the objects of the caller's dictionary as they are, and
  \<^verbatim>\<open>copy.deepcopy\<close> keeps shared what was shared. The writer is therefore modelled over a
  store. The heap is the list of the list objects there are, a list object being
  addressed by its position; an object gives every attribute it has either a number or
  string, or the address of a list object. The elements of a list object are values.
  \<open>view\<close> is the object as the record-order functions and the schema read it; the writer
  runs after \<^verbatim>\<open>del self.lines\<close>, and nothing it calls reads the cursor.
\<close>

type_synonym writer = "string \<Rightarrow> pyval list \<Rightarrow> error + string"

type_synonym files = "string \<Rightarrow> string option"

datatype slot = Plain scalar | ListAt nat

type_synonym object = "string \<Rightarrow> slot option"

type_synonym heap = "pyval list list"

fun deref :: "heap \<Rightarrow> slot \<Rightarrow> pyval" where
  "deref heap (Plain x) = of_scalar x"
| "deref heap (ListAt a) = VList (heap ! a)"

definition view :: "object \<Rightarrow> heap \<Rightarrow> input" where
  "view self heap =
     \<lparr>attrs = (\<lambda>key. map_option (deref heap) (self key)), lines = None, read_i = 0\<rparr>"

text \<open>
  \<^verbatim>\<open>copy.deepcopy(self)\<close>: every list object gets a copy of its own, at the old address
  plus the old size of the heap, and the copy of the object holds the copies. (The
  library copies the list objects that the object reaches; the others cannot be told
  apart from their copies by anything the writer does.)
\<close>

fun shift :: "nat \<Rightarrow> slot \<Rightarrow> slot" where
  "shift n (Plain x) = Plain x"
| "shift n (ListAt a) = ListAt (a + n)"

definition copy :: "object \<Rightarrow> heap \<Rightarrow> object \<times> heap" where
  "copy self heap = (\<lambda>key. map_option (shift (length heap)) (self key), heap @ heap)"

text \<open>
  One round of \<^verbatim>\<open>for key in names\<close> in \<^verbatim>\<open>write_record\<close>: \<^verbatim>\<open>getattr\<close> raises
  AttributeError for a missing field and \<^verbatim>\<open>attr.pop(0)\<close> IndexError on an empty list, both
  before anything is changed; otherwise the list object loses its first element. The loop
  keeps what earlier rounds have popped when a later round raises.
\<close>

definition pop_field :: "object \<Rightarrow> string \<Rightarrow> heap \<Rightarrow> error + heap \<times> pyval" where
  "pop_field self key heap =
     (case self key of
        None \<Rightarrow> Inl (AttributeError key)
      | Some (Plain x) \<Rightarrow> Inr (heap, of_scalar x)
      | Some (ListAt a) \<Rightarrow>
          (case heap ! a of
             [] \<Rightarrow> Inl IndexError
           | x # rest \<Rightarrow> Inr (heap[a := rest], x)))"

fun pop_fields ::
  "object \<Rightarrow> string list \<Rightarrow> heap \<Rightarrow> pyval list \<Rightarrow> heap \<times> (error + pyval list)" where
  "pop_fields self [] heap vals = (heap, Inr vals)"
| "pop_fields self (key # names) heap vals =
     (case pop_field self key heap of
        Inl e \<Rightarrow> (heap, Inl e)
      | Inr (heap', val) \<Rightarrow> pop_fields self names heap' (vals @ [val]))"

text \<open>\<^verbatim>\<open>write_record\<close> returns the heap as the call leaves it, and the line or the
  exception.\<close>

definition write_record ::
  "writer \<Rightarrow> schema \<Rightarrow> string \<Rightarrow> object \<Rightarrow> heap \<Rightarrow> heap \<times> (error + string)" where
  "write_record wr sch rec self heap =
     (case get_format sch (view self heap) rec of
        Inl e \<Rightarrow> (heap, Inl e)
      | Inr fmt \<Rightarrow>
          (case get_fields sch (view self heap) rec of
             Inl e \<Rightarrow> (heap, Inl e)
           | Inr names \<Rightarrow>
               (case pop_fields self names heap [] of
                  (heap', Inl e) \<Rightarrow> (heap', Inl e)
                | (heap', Inr vals) \<Rightarrow> (heap', wr fmt vals))))"

text \<open>The loop \<^verbatim>\<open>for rec in records: line = rundupe.write_record(rec); f.write(line+'\n')\<close>
  inside \<^verbatim>\<open>with open(fpath,'w') as f\<close>: what an exception leaves in the file is what was
  written before it.\<close>

definition newline :: string where
  "newline = [CHR 0x0A]"

fun write_records ::
  "writer \<Rightarrow> schema \<Rightarrow> string list \<Rightarrow> object \<Rightarrow> heap \<Rightarrow> string
     \<Rightarrow> heap \<times> string \<times> error option" where
  "write_records wr sch [] rundupe heap content = (heap, content, None)"
| "write_records wr sch (rec # records) rundupe heap content =
     (case write_record wr sch rec rundupe heap of
        (heap', Inl e) \<Rightarrow> (heap', content, Some e)
      | (heap', Inr line) \<Rightarrow>
          write_records wr sch records rundupe heap' (content @ line @ newline))"

text \<open>
  The three file writers return the heap and the file system as the call leaves them, and
  the exception if one was raised. None of them assigns an attribute of \<^verbatim>\<open>self\<close>. Each
  asks for the record order first, then takes \<^verbatim>\<open>rundupe = self.copy()\<close>, then opens the
  file.
\<close>

definition write_input_rrtm ::
  "writer \<Rightarrow> schema \<Rightarrow> string \<Rightarrow> object \<Rightarrow> heap \<times> files \<Rightarrow> heap \<times> files \<times> error option" where
  "write_input_rrtm wr sch fpath self hf =
     (let heap = fst hf; fs = snd hf in
      case get_explicit_record_order (view self heap) ''input_rrtm'' of
        Inl e \<Rightarrow> (heap, fs, Some e)
      | Inr records \<Rightarrow>
          let (rundupe, heap) = copy self heap;
              (heap, content, err) = write_records wr sch records rundupe heap
                 (newline @ newline @ ''file auto-generated by parserrtm'' @ newline)
          in (case err of
                Some e \<Rightarrow> (heap, fs(fpath \<mapsto> content), Some e)
              | None \<Rightarrow> (heap, fs(fpath \<mapsto> (content @ ''%'')), None)))"

definition write_in_cld_rrtm ::
  "writer \<Rightarrow> schema \<Rightarrow> string \<Rightarrow> object \<Rightarrow> heap \<times> files \<Rightarrow> heap \<times> files \<times> error option" where
  "write_in_cld_rrtm wr sch fpath self hf =
     (let heap = fst hf; fs = snd hf in
      case get_explicit_record_order (view self heap) ''in_cld_rrtm'' of
        Inl e \<Rightarrow> (heap, fs, Some e)
      | Inr records \<Rightarrow>
          let (rundupe, heap) = copy self heap;
              (heap, content, err) = write_records wr sch records rundupe heap []
          in (case err of
                Some e \<Rightarrow> (heap, fs(fpath \<mapsto> content), Some e)
              | None \<Rightarrow>
                  (heap, fs(fpath \<mapsto> (content @ ''%'' @ newline
                                      @ ''file auto-generated by parserrtm'')), None)))"

definition write_in_aer_rrtm ::
  "writer \<Rightarrow> schema \<Rightarrow> string \<Rightarrow> object \<Rightarrow> heap \<times> files \<Rightarrow> heap \<times> files \<times> error option" where
  "write_in_aer_rrtm wr sch fpath self hf =
     (let heap = fst hf; fs = snd hf in
      case get_explicit_record_order (view self heap) ''in_aer_rrtm'' of
        Inl e \<Rightarrow> (heap, fs, Some e)
      | Inr records \<Rightarrow>
          let (rundupe, heap) = copy self heap;
              (heap, content, err) = write_records wr sch records rundupe heap []
          in (case err of
                Some e \<Rightarrow> (heap, fs(fpath \<mapsto> content), Some e)
              | None \<Rightarrow>
                  (heap, fs(fpath \<mapsto> (content @ ''%'' @ newline
                                      @ ''file auto-generated by parserrtm'')), None)))"

text \<open>
  \<^verbatim>\<open>Input.write\<close> (\<open>write\<close> is a keyword of Isabelle, hence \<open>Input_write\<close>).
  \<^verbatim>\<open>Path(fpath)/NAME\<close> is the directory, a slash and the name, for a directory that is
  written as \<^verbatim>\<open>pathlib\<close> prints it (not empty, no slash at its end). The two
  dictionaries are as the source writes them: in \<^verbatim>\<open>methods\<close> the key \<^verbatim>\<open>'in_aer_rrtm'\<close> maps
  to \<^verbatim>\<open>self.write_in_cld_rrtm\<close> and \<^verbatim>\<open>'in_cld_rrtm'\<close> to \<^verbatim>\<open>self.write_in_aer_rrtm\<close>.
\<close>

definition fpaths :: "string \<Rightarrow> string \<Rightarrow> error + string" where
  "fpaths dir file =
     (if file = ''input_rrtm'' then Inr (dir @ ''/'' @ ''INPUT_RRTM'')
      else if file = ''in_cld_rrtm'' then Inr (dir @ ''/'' @ ''IN_CLD_RRTM'')
      else if file = ''in_aer_rrtm'' then Inr (dir @ ''/'' @ ''IN_AER_RRTM'')
      else Inl (KeyError file))"

definition methods ::
  "writer \<Rightarrow> schema \<Rightarrow> string
     \<Rightarrow> error + (string \<Rightarrow> object \<Rightarrow> heap \<times> files \<Rightarrow> heap \<times> files \<times> error option)" where
  "methods wr sch file =
     (if file = ''input_rrtm'' then Inr (write_input_rrtm wr sch)
      else if file = ''in_aer_rrtm'' then Inr (write_in_cld_rrtm wr sch)
      else if file = ''in_cld_rrtm'' then Inr (write_in_aer_rrtm wr sch)
      else Inl (KeyError file))"

text \<open>\<^verbatim>\<open>for file in files: methods[file](fpaths[file])\<close>.\<close>

fun write_files ::
  "writer \<Rightarrow> schema \<Rightarrow> string \<Rightarrow> string list \<Rightarrow> object \<Rightarrow> heap \<times> files
     \<Rightarrow> heap \<times> files \<times> error option" where
  "write_files wr sch dir [] self hf = (fst hf, snd hf, None)"
| "write_files wr sch dir (file # rest) self hf =
     (case methods wr sch file of
        Inl e \<Rightarrow> (fst hf, snd hf, Some e)
      | Inr method \<Rightarrow>
          (case fpaths dir file of
             Inl e \<Rightarrow> (fst hf, snd hf, Some e)
           | Inr path \<Rightarrow>
               (case method path self hf of
                  (heap, fs, Some e) \<Rightarrow> (heap, fs, Some e)
                | (heap, fs, None) \<Rightarrow> write_files wr sch dir rest self (heap, fs))))"

text \<open>The list \<^verbatim>\<open>files\<close> that \<^verbatim>\<open>write\<close> builds: filled only when \<^verbatim>\<open>file == 'auto'\<close>.\<close>

definition files_to_write :: "input \<Rightarrow> string \<Rightarrow> error + string list" where
  "files_to_write self file =
     (if file = ''auto'' then
        bnd (attr self ''ICLD'') (\<lambda>ICLD. bnd (py_gt ICLD 0) (\<lambda>cld.
        bnd (attr self ''IAER'') (\<lambda>IAER. bnd (py_gt IAER 0) (\<lambda>aer.
        Inr ([''input_rrtm''] @ (if cld then [''in_cld_rrtm''] else [])
               @ (if aer then [''in_aer_rrtm''] else []))))))
      else Inr [])"

text \<open>\<open>fpath\<close> is \<open>None\<close> for the default argument, which stands for the working
  directory \<open>cwd\<close>.\<close>

definition Input_write ::
  "writer \<Rightarrow> schema \<Rightarrow> string \<Rightarrow> string option \<Rightarrow> string \<Rightarrow> object \<Rightarrow> heap \<times> files
     \<Rightarrow> heap \<times> files \<times> error option" where
  "Input_write wr sch cwd fpath file self hf =
     (case files_to_write (view self (fst hf)) file of
        Inl e \<Rightarrow> (fst hf, snd hf, Some e)
      | Inr files \<Rightarrow>
          write_files wr sch (case fpath of None \<Rightarrow> cwd | Some p \<Rightarrow> p) files self hf)"

text \<open>
  \<^verbatim>\<open>Input.from_dict(args, lazy=True)\<close> on a fresh object: every key of the dictionary
  becomes an attribute and nothing else is filled in. The dictionary is given as its
  item list.
\<close>

definition from_dict_lazy :: "(string \<times> pyval) list \<Rightarrow> input" where
  "from_dict_lazy args =
     fold (\<lambda>kv self. setattr self (fst kv) (snd kv)) args
       \<lparr>attrs = Map.empty, lines = None, read_i = 0\<rparr>"

section \<open>Concrete documents, files and codecs\<close>

text \<open>
  The properties below are run on concrete inputs. The two codecs here stand in for the
  external library there: \<open>table_reader\<close> decodes a line by looking the format and the
  line up in a finite table, \<open>plain_writer\<close> prints integers and strings, a blank
  before each, and refuses any other value.
\<close>

definition table_reader :: "((string \<times> string) \<times> scalar list) list \<Rightarrow> reader" where
  "table_reader table fmt s =
     (case map_of table (fmt, s) of None \<Rightarrow> Inl LibraryError | Some vals \<Rightarrow> Inr vals)"

fun field_text :: "pyval \<Rightarrow> error + string" where
  "field_text (VInt n) = Inr (str_int n)"
| "field_text (VStr s) = Inr s"
| "field_text v = Inl LibraryError"

fun plain_writer :: writer where
  "plain_writer fmt [] = Inr []"
| "plain_writer fmt (v # vals) =
     bnd (field_text v) (\<lambda>t. bnd (plain_writer fmt vals) (\<lambda>rest. Inr ('' '' @ t @ rest)))"

text \<open>Small documents for the order functions, which read control fields only.\<close>

definition no_layer_doc :: input where
  "no_layer_doc = from_dict_lazy
     [(''IATM'', VInt 0), (''IXSECT'', VInt 0), (''NLAYRS'', VInt 0), (''NMOL'', VInt 7)]"

definition two_layer_control :: input where
  "two_layer_control = from_dict_lazy
     [(''IATM'', VInt 0), (''IXSECT'', VInt 0), (''NLAYRS'', VInt 2), (''NMOL'', VInt 7)]"

definition two_cloud_doc :: input where
  "two_cloud_doc = from_dict_lazy [(''INFLAG'', VInt 0), (''LAY'', VList [VInt 1, VInt 2])]"


text \<open>A document that has the cloud flags of record 1.2 set for scattering with an angle
  count outside 0, 1, 2.\<close>

definition bad_angles_doc :: input where
  "bad_angles_doc = from_dict_lazy [(''ISCAT'', VInt 1), (''NUMANGS'', VInt 3)]"

text \<open>A complete two-layer document of the longwave variant, the fields of one cloud
  file with three cloudy layers, and the same document with the cloud flag, or the
  aerosol flag, raised. \<open>two_layer_text\<close> is the primary file of the first.\<close>

definition two_layer_items :: "(string \<times> pyval) list" where
  "two_layer_items =
    [(''CXID'', VStr ''$ two layers''),
     (''IATM'', VInt 0), (''IXSECT'', VInt 0), (''ISCAT'', VInt 0), (''NUMANGS'', VInt 0),
     (''IOUT'', VInt 0), (''ICLD'', VInt 0), (''IAER'', VInt 0),
     (''TBOUND'', VInt 300), (''IEMIS'', VInt 1), (''IREFLECT'', VInt 0),
     (''SEMISS(1)'', VInt 1), (''SEMISS(2)'', VInt 1), (''SEMISS(3)'', VInt 1),
     (''SEMISS(4)'', VInt 1), (''SEMISS(5)'', VInt 1), (''SEMISS(6)'', VInt 1),
     (''SEMISS(7)'', VInt 1), (''SEMISS(8)'', VInt 1), (''SEMISS(9)'', VInt 1),
     (''SEMISS(10)'', VInt 1), (''SEMISS(11)'', VInt 1), (''SEMISS(12)'', VInt 1),
     (''SEMISS(13)'', VInt 1), (''SEMISS(14)'', VInt 1), (''SEMISS(15)'', VInt 1),
     (''SEMISS(16)'', VInt 1),
     (''IFORM'', VInt 0), (''NLAYRS'', VInt 2), (''NMOL'', VInt 7),
     (''PAVE'', VList [VInt 1000, VInt 900]), (''TAVE'', VList [VInt 290, VInt 280]),
     (''PZ(L-1)'', VList [VInt 1013, VInt 990]), (''TZ(L-1)'', VList [VInt 295, VInt 288]),
     (''PZ(L)'', VList [VInt 990, VInt 800]), (''TZ(L)'', VList [VInt 288, VInt 270]),
     (''WKL(1,L)'', VList [VInt 11, VInt 21]), (''WKL(2,L)'', VList [VInt 12, VInt 22]),
     (''WKL(3,L)'', VList [VInt 13, VInt 23]), (''WKL(4,L)'', VList [VInt 14, VInt 24]),
     (''WKL(5,L)'', VList [VInt 15, VInt 25]), (''WKL(6,L)'', VList [VInt 16, VInt 26]),
     (''WKL(7,L)'', VList [VInt 17, VInt 27]), (''WBROAD(L)'', VList [VInt 18, VInt 28])]"

definition cloud_items :: "(string \<times> pyval) list" where
  "cloud_items =
    [(''INFLAG'', VInt 2), (''ICEFLAG'', VInt 1), (''LIQFLAG'', VInt 1),
     (''TESTCHAR'', VList [VStr '' '', VStr '' '', VStr '' '']),
     (''LAY'', VList [VInt 1, VInt 2, VInt 3]),
     (''CLDFRAC'', VList [VInt 1, VInt 1, VInt 1]),
     (''CWP'', VList [VInt 10, VInt 20, VInt 30]),
     (''FRACICE'', VList [VInt 0, VInt 0, VInt 0]),
     (''EFFSIZEICE'', VList [VInt 40, VInt 40, VInt 40]),
     (''EFFSIZELIQ'', VList [VInt 8, VInt 8, VInt 8])]"

text \<open>
  The object and the heap that \<^verbatim>\<open>from_dict(args, lazy=True)\<close> leaves when a fresh object is
  given a dictionary every list value of which is a list object of its own (a
  dictionary display with list displays), the heap holding nothing else.
\<close>

fun store_item :: "string \<times> pyval \<Rightarrow> object \<times> heap \<Rightarrow> object \<times> heap" where
  "store_item (key, VList xs) (self, heap) = (self(key \<mapsto> ListAt (length heap)), heap @ [xs])"
| "store_item (key, VInt n) (self, heap) = (self(key \<mapsto> Plain (SInt n)), heap)"
| "store_item (key, VFloat x) (self, heap) = (self(key \<mapsto> Plain (SFloat x)), heap)"
| "store_item (key, VStr s) (self, heap) = (self(key \<mapsto> Plain (SStr s)), heap)"

definition new_object :: "(string \<times> pyval) list \<Rightarrow> object \<times> heap" where
  "new_object args = fold store_item args (Map.empty, [])"

definition two_layer_doc :: "object \<times> heap" where
  "two_layer_doc = new_object two_layer_items"

definition cloudy_doc :: "object \<times> heap" where
  "cloudy_doc = new_object (two_layer_items @ cloud_items @ [(''ICLD'', VInt 1)])"

definition aerosol_flag_doc :: "object \<times> heap" where
  "aerosol_flag_doc = new_object (two_layer_items @ cloud_items @ [(''IAER'', VInt 1)])"

text \<open>The two-layer document again, from a dictionary in which \<^verbatim>\<open>TAVE\<close> is the list
  object that \<^verbatim>\<open>PAVE\<close> is: the first list of the dictionary, at address 0.\<close>

definition shared_layer_doc :: "object \<times> heap" where
  "shared_layer_doc = (case two_layer_doc of (self, heap) \<Rightarrow> (self(''TAVE'' \<mapsto> ListAt 0), heap))"

definition two_layer_text :: string where
  "two_layer_text = concat (map (\<lambda>l. l @ newline)
     ['''', '''', ''file auto-generated by parserrtm'', '' $ two layers'', '' 0 0 0 0 0 0'',
      '' 300 1 0 1 1 1 1 1 1 1 1 1 1 1 1 1 1 1 1'', '' 0 2 7'',
      '' 1000 290 1013 295 990 288'', '' 11 12 13 14 15 16 17 18'',
      '' 900 280 990 288 800 270'', '' 21 22 23 24 25 26 27 28'']) @ ''%''"

text \<open>A document ready for a cloud file, and the decoding of the lines of two cloud
  files whose first record sets \<^verbatim>\<open>INFLAG=10\<close>.\<close>

definition spectral_doc :: input where
  "spectral_doc = from_dict_lazy [(''ISCAT'', VInt 0), (''NUMANGS'', VInt 0)]"

definition cld_table :: "((string \<times> string) \<times> scalar list) list" where
  "cld_table =
    [((''(3X, I2,  4X, I1,  4X, I1)'', ''   10    0    0''), [SInt 10, SInt 0, SInt 0]),
     ((''(A1, 1X, I3, ES10.3, ES10.3, ES10.3, ES10.3, ES10.3)'', ''    1 layer one''),
        [SStr '' '', SInt 1, SInt 1, SInt 5, SInt 0]),
     ((''(A1, 1X, I3, ES10.3, ES10.3, ES10.3, ES10.3, ES10.3)'', ''    2 layer two''),
        [SStr '' '', SInt 2, SInt 1, SInt 6, SInt 0])]"

text \<open>A document with the spectral flag set and two cloudy layers.\<close>

definition spectral_cloud_doc :: input where
  "spectral_cloud_doc = from_dict_lazy [(''INFLAG'', VInt 10), (''LAY'', VList [VInt 1, VInt 2])]"

text \<open>
  For the writer. An object is well formed in a heap when every list object it holds is
  there. A heap is flat when the elements of its list objects are numbers and strings, so
  that no list object is an element of another. \<open>hits self a names\<close> counts the names
  among \<open>names\<close> whose field is the list object at \<open>a\<close>.
\<close>

definition well_formed :: "object \<Rightarrow> heap \<Rightarrow> bool" where
  "well_formed self heap \<longleftrightarrow> (\<forall>key a. self key = Some (ListAt a) \<longrightarrow> a < length heap)"

definition flat :: "heap \<Rightarrow> bool" where
  "flat heap \<longleftrightarrow> list_all (list_all (\<lambda>x. \<not> is_list x)) heap"

definition hits :: "object \<Rightarrow> nat \<Rightarrow> string list \<Rightarrow> nat" where
  "hits self a names = length (filter (\<lambda>key. self key = Some (ListAt a)) names)"

text \<open>
  A file writer reruns on an object, a heap and a file system when a call leaves every
  list object of the heap as it was, so that the object reads as before, and a second
  call, on what the first left, leaves the file system as the first did and ends as the
  first did.
\<close>

definition reruns ::
  "(object \<Rightarrow> heap \<times> files \<Rightarrow> heap \<times> files \<times> error option) \<Rightarrow> object \<Rightarrow> heap \<Rightarrow> files
     \<Rightarrow> bool" where
  "reruns method self heap fs \<longleftrightarrow>
     (case method self (heap, fs) of
        (heap1, fs1, err1) \<Rightarrow>
          take (length heap) heap1 = heap \<and> view self heap1 = view self heap \<and>
          snd (method self (heap1, fs1)) = (fs1, err1))"

text \<open>For the greedy record: the value that the name at position \<open>i\<close> gets when every
  line decodes to \<open>k\<close> values and line \<open>j\<close> decodes to \<open>vss j\<close>, and the dictionary
  \<^verbatim>\<open>record\<close> once its first \<open>c\<close> names are filled.\<close>

definition value_at :: "nat \<Rightarrow> (nat \<Rightarrow> scalar list) \<Rightarrow> nat \<Rightarrow> scalar" where
  "value_at k vss i = vss (i div k) ! (i mod k)"

definition filled :: "string list \<Rightarrow> nat \<Rightarrow> (nat \<Rightarrow> scalar list) \<Rightarrow> nat \<Rightarrow> (string \<times> scalar) list" where
  "filled names k vss c = zip (take c names) (map (value_at k vss) [0..<c])"

text \<open>A document in the middle of a read, at a boundary record of ten altitudes
  (\<^verbatim>\<open>IBMAX=10\<close>) that takes two lines of eight values.\<close>

definition boundary_table :: "((string \<times> string) \<times> scalar list) list" where
  "boundary_table =
    [((''(8F10.3)'', ''boundaries 1 to 8''), map SInt [1, 2, 3, 4, 5, 6, 7, 8]),
     ((''(8F10.3)'', ''boundaries 9 and 10''), map SInt [9, 10, 0, 0, 0, 0, 0, 0])]"

definition boundary_reading :: input where
  "boundary_reading = (from_dict_lazy [(''IBMAX'', VInt 10)])
     \<lparr>lines := Some [''boundaries 1 to 8'', ''boundaries 9 and 10'', ''%''], read_i := 0\<rparr>"

text \<open>
  For the primary-file reader: the field names of the two per-layer records \<^verbatim>\<open>2.1.1\<close> and
  \<^verbatim>\<open>2.1.2\<close> as \<^verbatim>\<open>get_fields\<close> lists them, and what it means for the line decoder to hand
  back \<open>n\<close> values whenever it decodes a line under the format \<open>fmt\<close> (the library
  yields one value per edit descriptor of the format).
\<close>

definition layer_names :: "string list" where
  "layer_names = [''PAVE'', ''TAVE'', ''PZ(L-1)'', ''TZ(L-1)'', ''PZ(L)'', ''TZ(L)'']"

definition gas_names :: "string list" where
  "gas_names = [''WKL(1,L)'', ''WKL(2,L)'', ''WKL(3,L)'', ''WKL(4,L)'', ''WKL(5,L)'',
            ''WKL(6,L)'', ''WKL(7,L)'', ''WBROAD(L)'']"

definition full_width :: "reader \<Rightarrow> string \<Rightarrow> nat \<Rightarrow> bool" where
  "full_width rd fmt n \<longleftrightarrow> (\<forall>l vals. rd fmt l = Inr vals \<longrightarrow> length vals = n)"

text \<open>The lines of a primary file with two layers and seven species, and the decoding of
  each of its lines under the format of the record that the reader expects there.\<close>

definition profile_lines :: "string list" where
  "profile_lines =
    [''$ two layers'', ''0 0 0 0 0 0'', ''300 1 0 1 1 1 1 1 1 1 1 1 1 1 1 1 1 1 1'', ''0 2 7'',
     ''1000 290 1013 295 990 288'', ''11 12 13 14 15 16 17 18'',
     ''900 280 990 288 800 270'', ''21 22 23 24 25 26 27 28'', ''%'']"

definition profile_table :: "((string \<times> string) \<times> scalar list) list" where
  "profile_table =
    [((''(1A80)'', ''$ two layers''), [SStr ''$ two layers'']),
     ((''(49X, I1, 19X, I1, 12X, I1, I2, 2X, I3, 4X, I1)'', ''0 0 0 0 0 0''),
        map SInt [0, 0, 0, 0, 0, 0]),
     ((''(F10.3,  1X, I1, 2X, I1, 16F5.3)'', ''300 1 0 1 1 1 1 1 1 1 1 1 1 1 1 1 1 1 1''),
        map SInt [300, 1, 0, 1, 1, 1, 1, 1, 1, 1, 1, 1, 1, 1, 1, 1, 1, 1, 1]),
     ((''(1X,I1, I3, I5)'', ''0 2 7''), map SInt [0, 2, 7]),
     ((''(F10.4, F10.4, 23X, F8.3, F7.2,  7X, F8.3,   F7.2)'', ''1000 290 1013 295 990 288''),
        map SInt [1000, 290, 1013, 295, 990, 288]),
     ((''(8ES10.3)'', ''11 12 13 14 15 16 17 18''), map SInt [11, 12, 13, 14, 15, 16, 17, 18]),
     ((''(F10.4, F10.4, 23X, F8.3, F7.2,  7X, F8.3,   F7.2)'', ''900 280 990 288 800 270''),
        map SInt [900, 280, 990, 288, 800, 270]),
     ((''(8ES10.3)'', ''21 22 23 24 25 26 27 28''), map SInt [21, 22, 23, 24, 25, 26, 27, 28])]"

section \<open>Properties of the record orders\<close>

lemma for_each_append:
  "for_each xs (\<lambda>i records. Inr (records @ c)) acc = Inr (acc @ concat (replicate (length xs) c))"
  by (induction xs arbitrary: acc) auto

lemma for_each_guard:
  "for_each xs (\<lambda>i records. bnd m (\<lambda>v. bnd (g v) (\<lambda>b. Inr (records @ h b)))) acc =
     (if xs = [] then Inr acc
      else bnd m (\<lambda>v. bnd (g v) (\<lambda>b. Inr (acc @ concat (replicate (length xs) (h b))))))"
proof (cases m)
  case (Inl e)
  then show ?thesis by (cases xs) auto
next
  case (Inr v)
  show ?thesis
  proof (cases "g v")
    case (Inl e)
    with Inr show ?thesis by (cases xs) auto
  next
    case b: (Inr b)
    with Inr show ?thesis by (simp add: for_each_append)
  qed
qed

lemma for_each_raise:
  "for_each xs (\<lambda>i records. bnd m (\<lambda>v. if p v then Inl e else Inr (records @ c))) acc =
     (if xs = [] then Inr acc
      else bnd m (\<lambda>v. if p v then Inl e else Inr (acc @ concat (replicate (length xs) c))))"
proof (cases m)
  case (Inl e)
  then show ?thesis by (cases xs) auto
next
  case (Inr v)
  then show ?thesis by (cases xs) (auto simp: for_each_append)
qed

lemma length_py_range [simp]: "length (py_range 0 n) = nat n"
  by (simp add: py_range_def)

lemma py_range_Nil [simp]: "py_range 0 n = [] \<longleftrightarrow> n \<le> 0"
  by (auto simp: py_range_def)

lemma as_int_Inr: "as_int v = Inr n \<longleftrightarrow> v = VInt n"
  by (cases v) auto

lemma bnd_Inr: "bnd m f = Inr y \<longleftrightarrow> (\<exists>x. m = Inr x \<and> f x = Inr y)"
  by (cases m) auto

lemma length_concat_replicate [simp]: "length (concat (replicate n c)) = n * length c"
  by (induction n) auto

lemma set_concat_replicate [simp]: "set (concat (replicate n c)) = (if n = 0 then {} else set c)"
  by (induction n) auto


lemma attr_Some [simp]: "attrs self k = Some v \<Longrightarrow> attr self k = Inr v"
  by (simp add: attr_def)

lemma attr_None [simp]: "attrs self k = None \<Longrightarrow> attr self k = Inl (AttributeError k)"
  by (simp add: attr_def)


lemma islist_simps [simp]:
  "islist ''1.1'' = False" "islist ''1.2'' = False" "islist ''1.4'' = False"
  "islist ''2.1'' = False" "islist ''2.1.1'' = True" "islist ''2.1.2'' = True"
  "islist ''2.1.3'' = True" "islist ''2.2'' = False" "islist ''2.2.1'' = False"
  "islist ''2.2.2'' = False" "islist ''2.2.3'' = True" "islist ''2.2.4'' = True"
  "islist ''2.2.5'' = True" "islist ''3.1'' = False" "islist ''3.2'' = False"
  "islist ''3.3A'' = False" "islist ''3.3B'' = False" "islist ''3.4'' = False"
  "islist ''3.5'' = True" "islist ''3.6.1'' = True" "islist ''3.7'' = False"
  "islist ''3.7.1'' = False" "islist ''3.8'' = False" "islist ''3.8.1'' = True"
  "islist ''3.8.2'' = True" "islist ''C1.1'' = False" "islist ''C1.2'' = True"
  "islist ''C1.3'' = True"
  by (simp_all add: islist_def)

lemma record_len_simps:
  "record_len self ''2.1.1'' = attr self ''NLAYRS''"
  "record_len self ''2.1.2'' = attr self ''NLAYRS''"
  "record_len self ''2.1.3'' = attr self ''NLAYRS''"
  "record_len self ''2.2.3'' = attr self ''NLAYRS''"
  "record_len self ''2.2.4'' = attr self ''NLAYRS''"
  "record_len self ''2.2.5'' = attr self ''NLAYRS''"
  "record_len self ''3.5'' = attr self ''IMMAX''"
  "record_len self ''3.6.1'' = attr self ''IMMAX''"
  "record_len self ''3.8.1'' = attr self ''LAYX''"
  "record_len self ''3.8.2'' = attr self ''LAYX''"
  by (simp_all add: record_len_def)

lemma order_length_iatm0:
  assumes lo: "get_logical_record_order self ''input_rrtm'' = Inr lo"
    and ex: "get_explicit_record_order self ''input_rrtm'' = Inr ex"
    and h: "\<forall>r\<in>set lo. islist r \<longrightarrow> (\<exists>n. record_len self r = Inr (VInt n) \<and> 1 \<le> n)"
    and iatm: "attrs self ''IATM'' = Some IATM" "py_eq IATM 0"
  shows "length lo \<le> length ex \<and>
     (length ex = length lo \<longleftrightarrow>
        \<not> (\<exists>r\<in>set lo. islist r \<and> (\<exists>n. record_len self r = Inr (VInt n) \<and> 1 < n)))"
proof -
  from lo iatm obtain NMOL b1 IXSECT where
    nm: "attrs self ''NMOL'' = Some NMOL" "py_gt NMOL 7 = Inr b1"
      "attrs self ''IXSECT'' = Some IXSECT"
    by (auto simp: get_logical_record_order_def bnd_Inr attr_def split: option.splits)
  have "''2.1.1'' \<in> set lo"
    using lo iatm nm by (auto simp: get_logical_record_order_def Let_def bnd_Inr split: if_splits)
  with h have "\<exists>n. record_len self ''2.1.1'' = Inr (VInt n) \<and> 1 \<le> n"
    by simp
  then obtain n where n: "attrs self ''NLAYRS'' = Some (VInt n)" "1 \<le> n"
    by (auto simp: record_len_simps attr_def split: option.splits)
  from n obtain k where k: "nat n = Suc k"
    by (cases "nat n") auto
  have n1: "1 < n \<longleftrightarrow> k \<noteq> 0"
    using k by auto
  show ?thesis
  proof (cases "py_eq IXSECT 1")
    case False
    have lo_eq: "lo = [''1.1'', ''1.2'', ''1.4'', ''2.1'', ''2.1.1'', ''2.1.2'']
                         @ (if b1 then [''2.1.3''] else [])"
      using lo iatm nm False by (simp add: get_logical_record_order_def)
    have ex_eq: "ex = [''1.1'', ''1.2'', ''1.4'', ''2.1'']
      @ concat (replicate (nat n) ([''2.1.1'', ''2.1.2''] @ (if b1 then [''2.1.3''] else [])))"
      using ex iatm nm n False by (simp add: get_explicit_record_order_def for_each_guard for_each_append)
    show ?thesis unfolding lo_eq ex_eq
      by (cases b1) (simp_all add: record_len_simps n(1) n1 k)
  next
    case True
    from lo iatm nm True obtain IXMOLS b2 where
      xm: "attrs self ''IXMOLS'' = Some IXMOLS" "py_gt IXMOLS 7 = Inr b2"
      by (auto simp: get_logical_record_order_def bnd_Inr attr_def split: option.splits)
    have lo_eq: "lo = [''1.1'', ''1.2'', ''1.4'', ''2.1'', ''2.1.1'', ''2.1.2'']
         @ (if b1 then [''2.1.3''] else []) @ [''2.2'', ''2.2.1'', ''2.2.2'', ''2.2.3'', ''2.2.4'']
         @ (if b2 then [''2.2.5''] else [])"
      using lo iatm nm True xm by (simp add: get_logical_record_order_def)
    have ex_eq: "ex = [''1.1'', ''1.2'', ''1.4'', ''2.1'']
      @ concat (replicate (nat n) ([''2.1.1'', ''2.1.2''] @ (if b1 then [''2.1.3''] else [])))
      @ [''2.2'', ''2.2.1'', ''2.2.2'']
      @ concat (replicate (nat n) ([''2.2.3'', ''2.2.4''] @ (if b2 then [''2.2.5''] else [])))"
      using ex iatm nm n True xm by (simp add: get_explicit_record_order_def for_each_guard for_each_append)
    show ?thesis unfolding lo_eq ex_eq
      by (cases b1; cases b2) (simp_all add: record_len_simps n(1) n1 k)
  qed
qed

lemma order_length_iatm1:
  assumes lo: "get_logical_record_order self ''input_rrtm'' = Inr lo"
    and ex: "get_explicit_record_order self ''input_rrtm'' = Inr ex"
    and h: "\<forall>r\<in>set lo. islist r \<longrightarrow> (\<exists>n. record_len self r = Inr (VInt n) \<and> 1 \<le> n)"
    and iatm: "attrs self ''IATM'' = Some IATM" "\<not> py_eq IATM 0" "py_eq IATM 1"
  shows "length lo \<le> length ex \<and>
     (length ex = length lo \<longleftrightarrow>
        \<not> (\<exists>r\<in>set lo. islist r \<and> (\<exists>n. record_len self r = Inr (VInt n) \<and> 1 < n)))"
proof -
  from lo iatm obtain IBMAX MODEL IXSECT where
    at: "attrs self ''IBMAX'' = Some IBMAX" "attrs self ''MODEL'' = Some MODEL"
      "attrs self ''IXSECT'' = Some IXSECT"
    by (auto simp: get_logical_record_order_def bnd_Inr attr_def split: option.splits)
  define b3 where "b3 = (if py_eq IBMAX 0 then ''3.3A'' else ''3.3B'')"
  have b3: "islist b3 = False"
    by (simp add: b3_def)
  have model: "\<exists>n k. attrs self ''IMMAX'' = Some (VInt n) \<and> nat n = Suc k \<and> (1 < n \<longleftrightarrow> k \<noteq> 0)"
    if "py_eq MODEL 0"
  proof -
    have "''3.5'' \<in> set lo"
      using lo iatm at that
      by (auto simp: get_logical_record_order_def Let_def bnd_Inr split: if_splits)
    with h have "\<exists>n. record_len self ''3.5'' = Inr (VInt n) \<and> 1 \<le> n"
      by simp
    then obtain n where n: "attrs self ''IMMAX'' = Some (VInt n)" "1 \<le> n"
      by (auto simp: record_len_simps attr_def split: option.splits)
    then obtain k where "nat n = Suc k"
      by (cases "nat n") auto
    with n show ?thesis by auto
  qed
  show ?thesis
  proof (cases "py_eq IXSECT 1")
    case False
    show ?thesis
    proof (cases "py_eq MODEL 0")
      case m: False
      have lo_eq: "lo = [''1.1'', ''1.2'', ''1.4'', ''3.1'', ''3.2'', b3]"
        using lo iatm at False m by (auto simp: get_logical_record_order_def b3_def)
      have ex_eq: "ex = [''1.1'', ''1.2'', ''1.4'', ''3.1'', ''3.2'', b3]"
        using ex iatm at False m by (auto simp: get_explicit_record_order_def b3_def)
      show ?thesis unfolding lo_eq ex_eq by (simp add: b3)
    next
      case m: True
      from model[OF m] obtain n k where
        n: "attrs self ''IMMAX'' = Some (VInt n)" "nat n = Suc k" "1 < n \<longleftrightarrow> k \<noteq> 0"
        by blast
      have lo_eq: "lo = [''1.1'', ''1.2'', ''1.4'', ''3.1'', ''3.2'', b3, ''3.4'', ''3.5'', ''3.6.1'']"
        using lo iatm at False m by (auto simp: get_logical_record_order_def b3_def)
      have ex_eq: "ex = [''1.1'', ''1.2'', ''1.4'', ''3.1'', ''3.2'', b3, ''3.4'']
          @ concat (replicate (nat n) [''3.5'', ''3.6.1''])"
        using ex iatm at False m n(1)
        by (auto simp: get_explicit_record_order_def b3_def for_each_append)
      show ?thesis unfolding lo_eq ex_eq
        by (simp add: b3 record_len_simps n)
    qed
  next
    case True
    from lo iatm at True obtain IPRFL where ip: "attrs self ''IPRFL'' = Some IPRFL"
      by (auto simp: get_logical_record_order_def bnd_Inr attr_def Let_def split: option.splits)
    have layx: "\<exists>n k. attrs self ''LAYX'' = Some (VInt n) \<and> nat n = Suc k \<and> (1 < n \<longleftrightarrow> k \<noteq> 0)"
      if "py_eq IPRFL 0"
    proof -
      have "''3.8.1'' \<in> set lo"
        using lo iatm at True ip that
        by (auto simp: get_logical_record_order_def Let_def bnd_Inr split: if_splits)
      with h have "\<exists>n. record_len self ''3.8.1'' = Inr (VInt n) \<and> 1 \<le> n"
        by simp
      then obtain n where n: "attrs self ''LAYX'' = Some (VInt n)" "1 \<le> n"
        by (auto simp: record_len_simps attr_def split: option.splits)
      then obtain k where "nat n = Suc k"
        by (cases "nat n") auto
      with n show ?thesis by auto
    qed
    show ?thesis
    proof (cases "py_eq MODEL 0")
      case m: False
      show ?thesis
      proof (cases "py_eq IPRFL 0")
        case p: False
        have lo_eq: "lo = [''1.1'', ''1.2'', ''1.4'', ''3.1'', ''3.2'', b3, ''3.7'', ''3.7.1'']"
          using lo iatm at True m ip p by (auto simp: get_logical_record_order_def b3_def)
        have ex_eq: "ex = [''1.1'', ''1.2'', ''1.4'', ''3.1'', ''3.2'', b3, ''3.7'', ''3.7.1'']"
          using ex iatm at True m ip p by (auto simp: get_explicit_record_order_def b3_def)
        show ?thesis unfolding lo_eq ex_eq by (simp add: b3)
      next
        case p: True
        from layx[OF p] obtain n2 k2 where
          n2: "attrs self ''LAYX'' = Some (VInt n2)" "nat n2 = Suc k2" "1 < n2 \<longleftrightarrow> k2 \<noteq> 0"
          by blast
        have lo_eq: "lo = [''1.1'', ''1.2'', ''1.4'', ''3.1'', ''3.2'', b3, ''3.7'', ''3.7.1'',
            ''3.8'', ''3.8.1'', ''3.8.2'']"
          using lo iatm at True m ip p by (auto simp: get_logical_record_order_def b3_def)
        have ex_eq: "ex = [''1.1'', ''1.2'', ''1.4'', ''3.1'', ''3.2'', b3, ''3.7'', ''3.7.1'', ''3.8'']
            @ concat (replicate (nat n2) [''3.8.1'', ''3.8.2''])"
          using ex iatm at True m ip p n2(1)
          by (auto simp: get_explicit_record_order_def b3_def for_each_append)
        show ?thesis unfolding lo_eq ex_eq
          by (simp add: b3 record_len_simps n2)
      qed
    next
      case m: True
      from model[OF m] obtain n k where
        n: "attrs self ''IMMAX'' = Some (VInt n)" "nat n = Suc k" "1 < n \<longleftrightarrow> k \<noteq> 0"
        by blast
      show ?thesis
      proof (cases "py_eq IPRFL 0")
        case p: False
        have lo_eq: "lo = [''1.1'', ''1.2'', ''1.4'', ''3.1'', ''3.2'', b3, ''3.4'', ''3.5'', ''3.6.1'',
            ''3.7'', ''3.7.1'']"
          using lo iatm at True m ip p by (auto simp: get_logical_record_order_def b3_def)
        have ex_eq: "ex = [''1.1'', ''1.2'', ''1.4'', ''3.1'', ''3.2'', b3, ''3.4'']
            @ concat (replicate (nat n) [''3.5'', ''3.6.1'']) @ [''3.7'', ''3.7.1'']"
          using ex iatm at True m ip p n(1)
          by (auto simp: get_explicit_record_order_def b3_def for_each_append)
        show ?thesis unfolding lo_eq ex_eq
          by (simp add: b3 record_len_simps n)
      next
        case p: True
        from layx[OF p] obtain n2 k2 where
          n2: "attrs self ''LAYX'' = Some (VInt n2)" "nat n2 = Suc k2" "1 < n2 \<longleftrightarrow> k2 \<noteq> 0"
          by blast
        have lo_eq: "lo = [''1.1'', ''1.2'', ''1.4'', ''3.1'', ''3.2'', b3, ''3.4'', ''3.5'', ''3.6.1'',
            ''3.7'', ''3.7.1'', ''3.8'', ''3.8.1'', ''3.8.2'']"
          using lo iatm at True m ip p by (auto simp: get_logical_record_order_def b3_def)
        have ex_eq: "ex = [''1.1'', ''1.2'', ''1.4'', ''3.1'', ''3.2'', b3, ''3.4'']
            @ concat (replicate (nat n) [''3.5'', ''3.6.1'']) @ [''3.7'', ''3.7.1'', ''3.8'']
            @ concat (replicate (nat n2) [''3.8.1'', ''3.8.2''])"
          using ex iatm at True m ip p n(1) n2(1)
          by (auto simp: get_explicit_record_order_def b3_def for_each_append)
        show ?thesis unfolding lo_eq ex_eq
          by (simp add: b3 record_len_simps n n2)
      qed
    qed
  qed
qed

lemma order_length_cld12:
  assumes lo: "get_logical_record_order self ''in_cld_rrtm'' = Inr lo"
    and ex: "get_explicit_record_order self ''in_cld_rrtm'' = Inr ex"
    and h: "\<forall>r\<in>set lo. islist r \<longrightarrow> (\<exists>n. record_len self r = Inr (VInt n) \<and> 1 \<le> n)"
    and fl: "attrs self ''INFLAG'' = Some INFLAG" "py_eq INFLAG 1 \<or> py_eq INFLAG 2"
  shows "length lo \<le> length ex \<and>
     (length ex = length lo \<longleftrightarrow>
        \<not> (\<exists>r\<in>set lo. islist r \<and> (\<exists>n. record_len self r = Inr (VInt n) \<and> 1 < n)))"
proof -
  have lo_eq: "lo = [''C1.1'', ''C1.2'']"
    using lo fl by (auto simp: get_logical_record_order_def)
  from ex fl obtain LAY where lay: "attrs self ''LAY'' = Some LAY"
    by (auto simp: get_explicit_record_order_def bnd_Inr attr_def split: option.splits)
  define m where "m = (if \<not> is_list LAY then 1 else case LAY of VList xs \<Rightarrow> length xs | _ \<Rightarrow> 0)"
  have m: "(if \<not> is_list LAY then Inr 1 else py_len LAY) = Inr m"
    by (cases LAY) (simp_all add: m_def)
  have rl: "record_len self ''C1.2'' = Inr (VInt (int m))"
    using lay by (cases LAY) (simp_all add: record_len_def m_def)
  have ex_eq: "ex = [''C1.1''] @ concat (replicate m [''C1.2''])"
    using ex fl lay m by (auto simp: get_explicit_record_order_def for_each_append)
  from h rl have "1 \<le> m"
    by (simp add: lo_eq)
  then obtain k where k: "m = Suc k"
    by (cases m) auto
  show ?thesis unfolding lo_eq ex_eq
    by (simp add: rl k)
qed

text \<open>
  Claim C2, as the code has it. The explicit order is at least as long as the logical
  order, with equality exactly when no repeated record of the logical order has an
  occurrence count above 1, for the primary file and for the cloud file with \<^verbatim>\<open>INFLAG\<close> 1
  or 2, on every document where both orders are defined and every repeated record of the
  logical order has an occurrence count of at least 1.
\<close>

theorem explicit_order_length:
  assumes lo: "get_logical_record_order self file = Inr lo"
    and ex: "get_explicit_record_order self file = Inr ex"
    and kind: "file = ''input_rrtm'' \<or>
      (file = ''in_cld_rrtm'' \<and> (\<exists>v. attrs self ''INFLAG'' = Some v \<and> (py_eq v 1 \<or> py_eq v 2)))"
    and h: "\<forall>r\<in>set lo. islist r \<longrightarrow> (\<exists>n. record_len self r = Inr (VInt n) \<and> 1 \<le> n)"
  shows "length lo \<le> length ex \<and>
     (length ex = length lo \<longleftrightarrow>
        \<not> (\<exists>r\<in>set lo. islist r \<and> (\<exists>n. record_len self r = Inr (VInt n) \<and> 1 < n)))"
proof -
  consider (inp) "file = ''input_rrtm''"
    | (cld) v where "file = ''in_cld_rrtm''" "attrs self ''INFLAG'' = Some v" "py_eq v 1 \<or> py_eq v 2"
    using kind by blast
  then show ?thesis
  proof cases
    case inp
    from lo inp obtain IATM where iatm: "attrs self ''IATM'' = Some IATM"
      by (auto simp: get_logical_record_order_def bnd_Inr attr_def split: option.splits)
    consider "py_eq IATM 0" | "\<not> py_eq IATM 0" "py_eq IATM 1" | "\<not> py_eq IATM 0" "\<not> py_eq IATM 1"
      by blast
    then show ?thesis
    proof cases
      case 1
      then show ?thesis using order_length_iatm0 lo ex h iatm unfolding inp by blast
    next
      case 2
      then show ?thesis using order_length_iatm1 lo ex h iatm unfolding inp by blast
    next
      case 3
      have "lo = [''1.1'', ''1.2'', ''1.4'']"
        using lo iatm 3 by (simp add: get_logical_record_order_def inp)
      moreover have "ex = [''1.1'', ''1.2'', ''1.4'']"
        using ex iatm 3 by (simp add: get_explicit_record_order_def inp)
      ultimately show ?thesis by simp
    qed
  next
    case cld
    then show ?thesis using order_length_cld12 lo ex h by blast
  qed
qed


theorem explicit_order_length_witness:
  "length [''1.1'', ''1.2'', ''1.4'', ''2.1'', ''2.1.1'', ''2.1.2'']
     \<le> length [''1.1'', ''1.2'', ''1.4'', ''2.1'', ''2.1.1'', ''2.1.2'', ''2.1.1'', ''2.1.2''] \<and>
   (length [''1.1'', ''1.2'', ''1.4'', ''2.1'', ''2.1.1'', ''2.1.2'', ''2.1.1'', ''2.1.2'']
      = length [''1.1'', ''1.2'', ''1.4'', ''2.1'', ''2.1.1'', ''2.1.2'']
    \<longleftrightarrow> \<not> (\<exists>r\<in>set [''1.1'', ''1.2'', ''1.4'', ''2.1'', ''2.1.1'', ''2.1.2''].
            islist r \<and> (\<exists>n. record_len two_layer_control r = Inr (VInt n) \<and> 1 < n)))"
proof -
  have lo: "get_logical_record_order two_layer_control ''input_rrtm''
      = Inr [''1.1'', ''1.2'', ''1.4'', ''2.1'', ''2.1.1'', ''2.1.2'']"
    by (simp add: get_logical_record_order_def two_layer_control_def from_dict_lazy_def
        setattr_def attr_def)
  have ex: "get_explicit_record_order two_layer_control ''input_rrtm''
      = Inr [''1.1'', ''1.2'', ''1.4'', ''2.1'', ''2.1.1'', ''2.1.2'', ''2.1.1'', ''2.1.2'']"
    by (simp add: get_explicit_record_order_def two_layer_control_def from_dict_lazy_def
        setattr_def attr_def for_each_append numeral_2_eq_2)
  have h: "\<forall>r\<in>set [''1.1'', ''1.2'', ''1.4'', ''2.1'', ''2.1.1'', ''2.1.2''].
      islist r \<longrightarrow> (\<exists>n. record_len two_layer_control r = Inr (VInt n) \<and> 1 \<le> n)"
    by (simp add: record_len_simps two_layer_control_def from_dict_lazy_def setattr_def attr_def)
  show ?thesis
    by (rule explicit_order_length [OF lo ex _ h]) simp
qed

text \<open>
  Claim C2 as stated fails: with \<^verbatim>\<open>IATM=0\<close> and \<^verbatim>\<open>NLAYRS=0\<close> the logical order still lists
  the per-layer records once, the explicit order lists them zero times, and the explicit
  order is the shorter one (4 records against 6).
\<close>

theorem explicit_order_shorter_counterexample:
  "get_logical_record_order no_layer_doc ''input_rrtm''
     = Inr [''1.1'', ''1.2'', ''1.4'', ''2.1'', ''2.1.1'', ''2.1.2''] \<and>
   get_explicit_record_order no_layer_doc ''input_rrtm''
     = Inr [''1.1'', ''1.2'', ''1.4'', ''2.1''] \<and>
   length [''1.1'', ''1.2'', ''1.4'', ''2.1'']
     < length [''1.1'', ''1.2'', ''1.4'', ''2.1'', ''2.1.1'', ''2.1.2'']"
  by (simp add: get_logical_record_order_def get_explicit_record_order_def no_layer_doc_def
      from_dict_lazy_def setattr_def attr_def for_each_append)

text \<open>
  Claim C3 on the code: for the cloud file with \<^verbatim>\<open>INFLAG=0\<close> the logical order appends
  \<^verbatim>\<open>'C1.3'\<close> once per element of \<^verbatim>\<open>LAY\<close>, so a document with two cloudy layers gets the
  repeated record twice in its logical order.
\<close>

theorem logical_order_repeats_cloud_record:
  "get_logical_record_order two_cloud_doc ''in_cld_rrtm'' = Inr [''C1.1'', ''C1.3'', ''C1.3'']"
  by (simp add: get_logical_record_order_def two_cloud_doc_def from_dict_lazy_def
      setattr_def attr_def for_each_raise)

section \<open>Properties of file bounds and of the cloud reader's derived field\<close>

text \<open>
  Claim C4 on the code: a primary file with two start-sentinel lines, and one with no
  end-sentinel line, do raise, but what is raised is the NameError of the undefined name
  \<^verbatim>\<open>fpath\<close> in the message, not the bounds error (the IOError) the code goes on to
  construct. (Lines are shown without their line terminator; only the first character of
  a line is inspected.)
\<close>

theorem file_bounds_raises_name_error:
  "get_input_rrtm_file_bounds [''$ first start'', ''$ second start'', ''%''] ''input_rrtm''
     = Inl (NameError ''fpath'') \<and>
   get_input_rrtm_file_bounds [''$ start'', ''no end line''] ''input_rrtm''
     = Inl (NameError ''fpath'')"
  by (simp add: get_input_rrtm_file_bounds_def upt_rec)

text \<open>
  Claim C9 on the code: with \<^verbatim>\<open>ISCAT=1\<close> and \<^verbatim>\<open>NUMANGS=3\<close>, \<^verbatim>\<open>read_in_cld_rrtm\<close> raises
  before any cloud record is read, but what is raised is the NameError of the undefined
  name \<^verbatim>\<open>NUMANGS\<close> in the message, not the ValueError. This holds for every line decoder
  and schema.
\<close>

theorem read_in_cld_rrtm_raises_name_error:
  "read_in_cld_rrtm rd sch [''   0    0    0'', ''%''] bad_angles_doc
     = Inl (NameError ''NUMANGS'')"
  by (simp add: read_in_cld_rrtm_def get_input_rrtm_file_bounds_def upt_rec derive_NSTR_def
      bad_angles_doc_def from_dict_lazy_def setattr_def attr_def Let_def)

section \<open>Properties of the writer\<close>

text \<open>
  Claim C10: for every document and every value of \<^verbatim>\<open>file\<close> other than \<^verbatim>\<open>'auto'\<close>,
  \<^verbatim>\<open>write\<close> returns without raising, and leaves the file system and the document (every
  list object) as they were.
\<close>

theorem write_not_auto_writes_nothing:
  "file \<noteq> ''auto'' \<Longrightarrow> Input_write wr sch cwd fpath file self (heap, fs) = (heap, fs, None)"
  by (simp add: Input_write_def files_to_write_def)

theorem write_not_auto_writes_nothing_witness:
  "''input_rrtm'' \<noteq> ''auto'' \<and>
   Input_write plain_writer InputLW ''.'' (Some ''run'') ''input_rrtm'' (fst two_layer_doc)
       (snd two_layer_doc, Map.empty)
     = (snd two_layer_doc, Map.empty, None)"
  using write_not_auto_writes_nothing
    [of "''input_rrtm''" plain_writer InputLW "''.''" "Some ''run''" "fst two_layer_doc"
        "snd two_layer_doc" Map.empty]
  by simp

text \<open>
  Claim C7 on the code: for a document with \<^verbatim>\<open>ICLD=1\<close> (and \<^verbatim>\<open>IAER=0\<close>),
  \<^verbatim>\<open>write(fpath, file='auto')\<close> writes \<^verbatim>\<open>INPUT_RRTM\<close> and then raises UnboundLocalError:
  the dictionary \<^verbatim>\<open>methods\<close> sends \<^verbatim>\<open>'in_cld_rrtm'\<close> to \<^verbatim>\<open>write_in_aer_rrtm\<close>, which asks
  for the explicit order of \<^verbatim>\<open>'in_aer_rrtm'\<close>, a file kind the order function has no
  branch for. No \<^verbatim>\<open>IN_CLD_RRTM\<close> is written. With \<^verbatim>\<open>IAER=1\<close> (and \<^verbatim>\<open>ICLD=0\<close>) the file
  \<^verbatim>\<open>IN_AER_RRTM\<close> is written, by \<^verbatim>\<open>write_in_cld_rrtm\<close>: it holds the cloud records.
\<close>

theorem write_auto_cloud_file_missing:
  "(case Input_write plain_writer InputLW ''.'' (Some ''run'') ''auto'' (fst cloudy_doc)
           (snd cloudy_doc, Map.empty) of
      (heap, fs, err) \<Rightarrow>
        (fs ''run/INPUT_RRTM'' \<noteq> None, fs ''run/IN_CLD_RRTM'', fs ''run/IN_AER_RRTM'', err))
     = (True, None, None, Some (UnboundLocalError ''records'')) \<and>
   (case Input_write plain_writer InputLW ''.'' (Some ''run'') ''auto'' (fst aerosol_flag_doc)
           (snd aerosol_flag_doc, Map.empty) of
      (heap, fs, err) \<Rightarrow>
        (fs ''run/INPUT_RRTM'' \<noteq> None, fs ''run/IN_CLD_RRTM'', fs ''run/IN_AER_RRTM'', err))
     = (True, None,
        Some (concat (map (\<lambda>l. l @ newline)
          ['' 2 1 1'', ''   1 1 10 0 40 8'', ''   2 1 20 0 40 8'', ''   3 1 30 0 40 8'', ''%''])
          @ ''file auto-generated by parserrtm''), None)"
  by code_simp

text \<open>
  Claim C8 as stated fails: \<^verbatim>\<open>write_input_rrtm\<close> run twice on the same document, with no
  copy taken by the caller, writes the same lines both times, each layer's values in
  place, and the document still holds its two-element lists afterwards.
\<close>

theorem write_twice_same_lines_counterexample:
  "(case write_input_rrtm plain_writer InputLW ''INPUT_RRTM'' (fst two_layer_doc)
           (snd two_layer_doc, Map.empty) of
      (heap1, fs1, err1) \<Rightarrow>
        (case write_input_rrtm plain_writer InputLW ''INPUT_RRTM'' (fst two_layer_doc)
                (heap1, fs1) of
           (heap2, fs2, err2) \<Rightarrow>
             (err1, fs1 ''INPUT_RRTM'', attrs (view (fst two_layer_doc) heap1) ''PAVE'',
              err2, fs2 ''INPUT_RRTM'', attrs (view (fst two_layer_doc) heap2) ''PAVE'')))
     = (None, Some two_layer_text, Some (VList [VInt 1000, VInt 900]),
        None, Some two_layer_text, Some (VList [VInt 1000, VInt 900]))"
  by code_simp

subsection \<open>What one record write pops\<close>

lemma pop_field_Inr:
  assumes "pop_field self key heap = Inr (heap', val)"
  obtains x where "self key = Some (Plain x)" "heap' = heap" "val = of_scalar x"
  | a rest where "self key = Some (ListAt a)" "heap ! a = val # rest" "heap' = heap[a := rest]"
  using assms
  by (auto simp: pop_field_def split: option.splits slot.splits list.splits)

lemma pop_fields_length:
  "pop_fields self names heap vals = (heap', r) \<Longrightarrow> length heap' = length heap"
proof (induction names arbitrary: heap vals)
  case Nil
  then show ?case by simp
next
  case (Cons key names)
  show ?case
  proof (cases "pop_field self key heap")
    case (Inl e)
    with Cons.prems show ?thesis by simp
  next
    case (Inr p)
    obtain h v where p: "p = (h, v)" by (cases p)
    from Inr p have "length h = length heap"
      by (auto elim!: pop_field_Inr)
    moreover from Cons.prems Inr p have "pop_fields self names h (vals @ [v]) = (heap', r)"
      by simp
    ultimately show ?thesis
      using Cons.IH by simp
  qed
qed

text \<open>What the loop of \<^verbatim>\<open>write_record\<close> pops and hands on.\<close>

lemma pop_fields_Inr:
  assumes "pop_fields self names heap vals = (heap', Inr vals')"
    and "well_formed self heap"
  shows "(\<forall>a<length heap. heap' ! a = drop (hits self a names) (heap ! a)) \<and>
         length vals' = length vals + length names \<and> take (length vals) vals' = vals \<and>
         (\<forall>i<length names. \<exists>s. self (names ! i) = Some s \<and>
            vals' ! (length vals + i) =
              (case s of Plain x \<Rightarrow> of_scalar x
               | ListAt a \<Rightarrow> heap ! a ! hits self a (take i names)))"
  using assms
proof (induction names arbitrary: heap vals)
  case Nil
  then show ?case by (simp add: hits_def)
next
  case (Cons key names)
  from Cons.prems(1) obtain h v where
    step: "pop_field self key heap = Inr (h, v)"
    and rest: "pop_fields self names h (vals @ [v]) = (heap', Inr vals')"
    by (auto split: sum.splits)
  from step have len: "length h = length heap"
    by (auto elim!: pop_field_Inr)
  with Cons.prems(2) have wf: "well_formed self h"
    by (simp add: well_formed_def)
  note ih = Cons.IH [OF rest wf]
  from ih have v: "vals' ! length vals = v" and pre: "take (length vals) vals' = vals"
    and n: "length vals' = length vals + length (key # names)"
    by (auto simp: take_Suc_conv_app_nth dest: arg_cong [where f = "\<lambda>xs. take (length vals) xs"]
        arg_cong [where f = "\<lambda>xs. xs ! length vals"])
  from step show ?case
  proof (cases rule: pop_field_Inr)
    case (1 x)
    have h: "hits self a (key # ks) = hits self a ks" for a ks
      using 1(1) by (simp add: hits_def)
    have "\<exists>s. self ((key # names) ! i) = Some s \<and>
            vals' ! (length vals + i) =
              (case s of Plain x \<Rightarrow> of_scalar x
               | ListAt a \<Rightarrow> heap ! a ! hits self a (take i (key # names)))"
      if "i < length (key # names)" for i
    proof (cases i)
      case 0
      with 1 v show ?thesis by simp
    next
      case (Suc j)
      with that have j: "j < length names" by simp
      with ih obtain s where s: "self (names ! j) = Some s"
        and val: "vals' ! (length (vals @ [v]) + j) =
              (case s of Plain x \<Rightarrow> of_scalar x
               | ListAt a \<Rightarrow> h ! a ! hits self a (take j names))"
        by blast
      from s val Suc 1(2) show ?thesis
        by (cases s) (simp_all add: h)
    qed
    with ih 1(2) len n pre show ?thesis
      by (simp add: h)
  next
    case (2 a0 rest0)
    from Cons.prems(2) 2(1) have a0: "a0 < length heap"
      by (simp add: well_formed_def)
    have h: "hits self a (key # ks) = (if a = a0 then Suc (hits self a ks) else hits self a ks)"
      for a ks
      using 2(1) by (simp add: hits_def)
    have cell: "heap' ! a = drop (hits self a (key # names)) (heap ! a)" if "a < length heap" for a
      using ih that len 2(2,3) a0 by (cases "a = a0") (simp_all add: h)
    have "\<exists>s. self ((key # names) ! i) = Some s \<and>
            vals' ! (length vals + i) =
              (case s of Plain x \<Rightarrow> of_scalar x
               | ListAt a \<Rightarrow> heap ! a ! hits self a (take i (key # names)))"
      if "i < length (key # names)" for i
    proof (cases i)
      case 0
      with 2 v show ?thesis by (simp add: hits_def)
    next
      case (Suc j)
      with that have j: "j < length names" by simp
      with ih obtain s where s: "self (names ! j) = Some s"
        and val: "vals' ! (length (vals @ [v]) + j) =
              (case s of Plain x \<Rightarrow> of_scalar x
               | ListAt a \<Rightarrow> h ! a ! hits self a (take j names))"
        by blast
      show ?thesis
      proof (cases s)
        case (Plain x)
        with s val Suc show ?thesis by simp
      next
        case (ListAt a)
        have "h ! a ! m = heap ! a ! (if a = a0 then Suc m else m)" for m
          using 2(2,3) a0 by (cases "a = a0") simp_all
        with s val Suc ListAt show ?thesis
          by (simp add: h)
      qed
    qed
    with cell n pre show ?thesis
      by simp
  qed
qed

subsection \<open>The file writers work on a copy\<close>

text \<open>The writer on a copy: it pops from the copies only, and what it writes depends on
  the contents of the copies alone, not on where they are.\<close>

lemma pop_field_shifted:
  "pop_field (\<lambda>key. map_option (shift N) (self key)) key h =
     (case self key of
        None \<Rightarrow> Inl (AttributeError key)
      | Some (Plain x) \<Rightarrow> Inr (h, of_scalar x)
      | Some (ListAt a) \<Rightarrow>
          (case h ! (a + N) of
             [] \<Rightarrow> Inl IndexError
           | x # rest \<Rightarrow> Inr (h[a + N := rest], x)))"
  by (simp add: pop_field_def split: option.splits slot.splits)

lemma pop_fields_frame:
  "pop_fields (\<lambda>key. map_option (shift N) (self key)) names h vals = (h', r)
     \<Longrightarrow> take N h' = take N h"
proof (induction names arbitrary: h vals)
  case Nil
  then show ?case by simp
next
  case (Cons key names)
  let ?obj = "\<lambda>key. map_option (shift N) (self key)"
  show ?case
  proof (cases "pop_field ?obj key h")
    case (Inl e)
    with Cons.prems show ?thesis by simp
  next
    case (Inr p)
    obtain h1 v where p: "p = (h1, v)" by (cases p)
    from Inr p have "take N h1 = take N h"
      unfolding pop_field_shifted by (auto split: option.splits slot.splits list.splits)
    moreover from Cons.prems Inr p have "pop_fields ?obj names h1 (vals @ [v]) = (h', r)"
      by simp
    ultimately show ?thesis
      using Cons.IH by simp
  qed
qed

lemma pop_fields_sim:
  assumes "\<forall>key a. self key = Some (ListAt a) \<longrightarrow> a < n"
    and "n + N1 \<le> length h1" and "n + N2 \<le> length h2"
    and "\<forall>a<n. h1 ! (a + N1) = h2 ! (a + N2)"
    and "pop_fields (\<lambda>key. map_option (shift N1) (self key)) names h1 vals = (h1', r1)"
    and "pop_fields (\<lambda>key. map_option (shift N2) (self key)) names h2 vals = (h2', r2)"
  shows "r1 = r2 \<and> (\<forall>a<n. h1' ! (a + N1) = h2' ! (a + N2))"
  using assms(2-)
proof (induction names arbitrary: h1 h2 vals)
  case Nil
  then show ?case by simp
next
  case (Cons key names)
  let ?obj1 = "\<lambda>key. map_option (shift N1) (self key)"
  let ?obj2 = "\<lambda>key. map_option (shift N2) (self key)"
  show ?case
  proof (cases "self key")
    case None
    with Cons.prems show ?thesis
      by (simp add: pop_field_shifted)
  next
    case (Some s)
    show ?thesis
    proof (cases s)
      case (Plain x)
      with Some Cons.prems(4,5)
      have "pop_fields ?obj1 names h1 (vals @ [of_scalar x]) = (h1', r1)"
        "pop_fields ?obj2 names h2 (vals @ [of_scalar x]) = (h2', r2)"
        by (simp_all add: pop_field_shifted)
      with Cons.IH [OF Cons.prems(1,2,3)] show ?thesis
        by blast
    next
      case (ListAt a)
      with Some assms(1) have a: "a < n" by simp
      with Cons.prems(3) have same: "h1 ! (a + N1) = h2 ! (a + N2)" by simp
      show ?thesis
      proof (cases "h2 ! (a + N2)")
        case Nil
        with same Some ListAt Cons.prems(4,5) show ?thesis
          using Cons.prems(3) by (simp add: pop_field_shifted)
      next
        case (Cons x rest)
        let ?h1 = "h1[a + N1 := rest]" and ?h2 = "h2[a + N2 := rest]"
        from Cons same Some ListAt Cons.prems(4,5)
        have runs: "pop_fields ?obj1 names ?h1 (vals @ [x]) = (h1', r1)"
          "pop_fields ?obj2 names ?h2 (vals @ [x]) = (h2', r2)"
          by (simp_all add: pop_field_shifted)
        have len: "n + N1 \<le> length ?h1" "n + N2 \<le> length ?h2"
          using Cons.prems(1,2) by simp_all
        have "?h1 ! (b + N1) = ?h2 ! (b + N2)" if "b < n" for b
          using that a Cons.prems(1,2,3) by (cases "b = a") simp_all
        then have "\<forall>b<n. ?h1 ! (b + N1) = ?h2 ! (b + N2)"
          by blast
        from Cons.IH [OF len this runs] show ?thesis .
      qed
    qed
  qed
qed

lemma view_sim:
  assumes "\<forall>key a. self key = Some (ListAt a) \<longrightarrow> a < n"
    and "\<forall>a<n. h1 ! (a + N1) = h2 ! (a + N2)"
  shows "view (\<lambda>key. map_option (shift N1) (self key)) h1
       = view (\<lambda>key. map_option (shift N2) (self key)) h2"
proof -
  have "map_option (deref h1) (map_option (shift N1) (self key))
      = map_option (deref h2) (map_option (shift N2) (self key))" for key
  proof (cases "self key")
    case None
    then show ?thesis by simp
  next
    case (Some s)
    with assms show ?thesis by (cases s) simp_all
  qed
  then show ?thesis
    by (simp add: view_def)
qed

lemma write_record_length:
  "write_record wr sch rec self h = (h', r) \<Longrightarrow> length h' = length h"
  by (auto simp: write_record_def split: sum.splits prod.splits dest: pop_fields_length)

lemma write_record_frame:
  "write_record wr sch rec (\<lambda>key. map_option (shift N) (self key)) h = (h', r)
     \<Longrightarrow> take N h' = take N h"
  by (auto simp: write_record_def split: sum.splits prod.splits dest: pop_fields_frame)

lemma write_record_sim:
  assumes "\<forall>key a. self key = Some (ListAt a) \<longrightarrow> a < n"
    and "n + N1 \<le> length h1" and "n + N2 \<le> length h2"
    and "\<forall>a<n. h1 ! (a + N1) = h2 ! (a + N2)"
    and "write_record wr sch rec (\<lambda>key. map_option (shift N1) (self key)) h1 = (h1', r1)"
    and "write_record wr sch rec (\<lambda>key. map_option (shift N2) (self key)) h2 = (h2', r2)"
  shows "r1 = r2 \<and> (\<forall>a<n. h1' ! (a + N1) = h2' ! (a + N2))"
proof -
  let ?obj1 = "\<lambda>key. map_option (shift N1) (self key)"
  let ?obj2 = "\<lambda>key. map_option (shift N2) (self key)"
  note v = view_sim [OF assms(1,4)]
  show ?thesis
  proof (cases "get_format sch (view ?obj2 h2) rec")
    case (Inl e)
    then have "write_record wr sch rec ?obj2 h2 = (h2, Inl e)"
      by (simp add: write_record_def)
    moreover from Inl have "write_record wr sch rec ?obj1 h1 = (h1, Inl e)"
      by (simp add: write_record_def v)
    ultimately show ?thesis
      using assms(4,5,6) by simp
  next
    case fmt: (Inr fmt)
    show ?thesis
    proof (cases "get_fields sch (view ?obj2 h2) rec")
      case (Inl e)
      with fmt have "write_record wr sch rec ?obj2 h2 = (h2, Inl e)"
        by (simp add: write_record_def)
      moreover from Inl fmt have "write_record wr sch rec ?obj1 h1 = (h1, Inl e)"
        by (simp add: write_record_def v)
      ultimately show ?thesis
        using assms(4,5,6) by simp
    next
      case (Inr names)
      obtain k1 q1 where p1: "pop_fields ?obj1 names h1 [] = (k1, q1)"
        by (cases "pop_fields ?obj1 names h1 []")
      obtain k2 q2 where p2: "pop_fields ?obj2 names h2 [] = (k2, q2)"
        by (cases "pop_fields ?obj2 names h2 []")
      from pop_fields_sim [OF assms(1,2,3,4) p1 p2]
      have q: "q1 = q2" and s: "\<forall>a<n. k1 ! (a + N1) = k2 ! (a + N2)"
        by simp_all
      from fmt Inr p2 have "write_record wr sch rec ?obj2 h2
          = (k2, case q2 of Inl e \<Rightarrow> Inl e | Inr vals \<Rightarrow> wr fmt vals)"
        by (simp add: write_record_def split: sum.splits)
      moreover from fmt Inr p1 have "write_record wr sch rec ?obj1 h1
          = (k1, case q1 of Inl e \<Rightarrow> Inl e | Inr vals \<Rightarrow> wr fmt vals)"
        by (simp add: write_record_def v split: sum.splits)
      ultimately show ?thesis
        using assms(5,6) q s by simp
    qed
  qed
qed

lemma write_records_frame:
  "write_records wr sch records (\<lambda>key. map_option (shift N) (self key)) h content = (h', c, e)
     \<Longrightarrow> take N h' = take N h \<and> length h' = length h"
proof (induction records arbitrary: h content)
  case Nil
  then show ?case by simp
next
  case (Cons rec records)
  let ?obj = "\<lambda>key. map_option (shift N) (self key)"
  obtain k r where w: "write_record wr sch rec ?obj h = (k, r)"
    by (cases "write_record wr sch rec ?obj h")
  note f = write_record_frame [OF w] write_record_length [OF w]
  show ?case
  proof (cases r)
    case (Inl e)
    with Cons.prems w f show ?thesis by simp
  next
    case (Inr line)
    with Cons.prems w
    have "write_records wr sch records ?obj k (content @ line @ newline) = (h', c, e)"
      by simp
    from Cons.IH [OF this] f show ?thesis by simp
  qed
qed

lemma write_records_sim:
  assumes "\<forall>key a. self key = Some (ListAt a) \<longrightarrow> a < n"
    and "n + N1 \<le> length h1" and "n + N2 \<le> length h2"
    and "\<forall>a<n. h1 ! (a + N1) = h2 ! (a + N2)"
    and "write_records wr sch records (\<lambda>key. map_option (shift N1) (self key)) h1 content
           = (h1', c1, e1)"
    and "write_records wr sch records (\<lambda>key. map_option (shift N2) (self key)) h2 content
           = (h2', c2, e2)"
  shows "c1 = c2 \<and> e1 = e2"
  using assms(2-)
proof (induction records arbitrary: h1 h2 content)
  case Nil
  then show ?case by simp
next
  case (Cons rec records)
  let ?obj1 = "\<lambda>key. map_option (shift N1) (self key)"
  let ?obj2 = "\<lambda>key. map_option (shift N2) (self key)"
  obtain k1 r1 where w1: "write_record wr sch rec ?obj1 h1 = (k1, r1)"
    by (cases "write_record wr sch rec ?obj1 h1")
  obtain k2 r2 where w2: "write_record wr sch rec ?obj2 h2 = (k2, r2)"
    by (cases "write_record wr sch rec ?obj2 h2")
  from write_record_sim [OF assms(1) Cons.prems(1,2,3) w1 w2]
  have r: "r1 = r2" and s: "\<forall>a<n. k1 ! (a + N1) = k2 ! (a + N2)"
    by simp_all
  have len: "n + N1 \<le> length k1" "n + N2 \<le> length k2"
    using write_record_length [OF w1] write_record_length [OF w2] Cons.prems(1,2) by simp_all
  show ?case
  proof (cases r2)
    case (Inl e)
    with Cons.prems(4,5) w1 w2 r show ?thesis by simp
  next
    case (Inr line)
    with Cons.prems(4,5) w1 w2 r
    have "write_records wr sch records ?obj1 k1 (content @ line @ newline) = (h1', c1, e1)"
      "write_records wr sch records ?obj2 k2 (content @ line @ newline) = (h2', c2, e2)"
      by simp_all
    from Cons.IH [OF len s this] show ?thesis .
  qed
qed

text \<open>A run of the record loop on a fresh copy, and a second run on a fresh copy taken
  after the first.\<close>

lemma view_kept:
  assumes "well_formed self heap" and "take (length heap) heap1 = heap"
  shows "view self heap1 = view self heap"
proof -
  have "heap1 ! a = heap ! a" if "a < length heap" for a
    using that assms(2) by (metis nth_take)
  then have "map_option (deref heap1) (self key) = map_option (deref heap) (self key)" for key
  proof (cases "self key")
    case None
    then show ?thesis by simp
  next
    case (Some s)
    with assms(1) \<open>\<And>a. a < length heap \<Longrightarrow> heap1 ! a = heap ! a\<close> show ?thesis
      by (cases s) (simp_all add: well_formed_def)
  qed
  then show ?thesis
    by (simp add: view_def)
qed

lemma copy_run:
  assumes "well_formed self heap"
    and "copy self heap = (rundupe, heap0)"
    and "write_records wr sch records rundupe heap0 content = (heap1, c1, e1)"
  shows "take (length heap) heap1 = heap" and "length heap1 = 2 * length heap"
proof -
  from assms(2) have r: "rundupe = (\<lambda>key. map_option (shift (length heap)) (self key))"
    and h: "heap0 = heap @ heap"
    by (simp_all add: copy_def)
  from write_records_frame [OF assms(3) [unfolded r]] h
  show "take (length heap) heap1 = heap" and "length heap1 = 2 * length heap"
    by simp_all
qed

lemma copy_rerun:
  assumes "well_formed self heap"
    and "take (length heap) heapA = heap"
    and "copy self heap = (rundupe, heap0)"
    and "write_records wr sch records rundupe heap0 content = (heap1, c1, e1)"
    and "copy self heapA = (rundupeA, heapA0)"
    and "write_records wr sch records rundupeA heapA0 content = (heapA1, c2, e2)"
  shows "c2 = c1 \<and> e2 = e1"
proof -
  let ?n = "length heap"
  have lenA: "?n \<le> length heapA"
    using arg_cong [OF assms(2), of length] by simp
  from assms(3) have r: "rundupe = (\<lambda>key. map_option (shift ?n) (self key))"
    and h: "heap0 = heap @ heap"
    by (simp_all add: copy_def)
  from assms(5) have rA: "rundupeA = (\<lambda>key. map_option (shift (length heapA)) (self key))"
    and hA: "heapA0 = heapA @ heapA"
    by (simp_all add: copy_def)
  have wf: "\<forall>key a. self key = Some (ListAt a) \<longrightarrow> a < ?n"
    using assms(1) by (simp add: well_formed_def)
  have "heapA ! a = heap ! a" if "a < ?n" for a
    using that assms(2) by (metis nth_take)
  then have s: "\<forall>a<?n. heap0 ! (a + ?n) = heapA0 ! (a + length heapA)"
    using lenA by (simp add: h hA nth_append)
  have l: "?n + ?n \<le> length heap0" "?n + length heapA \<le> length heapA0"
    using lenA by (simp_all add: h hA)
  from write_records_sim [OF wf l s assms(4) [unfolded r] assms(6) [unfolded rA]]
  show ?thesis by simp
qed

lemma file_writer_reruns:
  assumes wf: "well_formed self heap"
    and W: "\<And>heap fs. W self (heap, fs) =
      (case get_explicit_record_order (view self heap) kind of
         Inl e \<Rightarrow> (heap, fs, Some e)
       | Inr records \<Rightarrow>
           (case copy self heap of
              (rundupe, heap0) \<Rightarrow>
                (case write_records wr sch records rundupe heap0 header of
                   (h, content, err) \<Rightarrow>
                     (case err of
                        Some e \<Rightarrow> (h, fs(fpath \<mapsto> content), Some e)
                      | None \<Rightarrow> (h, fs(fpath \<mapsto> (content @ footer)), None)))))"
  shows "reruns W self heap fs"
proof (cases "get_explicit_record_order (view self heap) kind")
  case (Inl e)
  then show ?thesis
    by (simp add: reruns_def W)
next
  case (Inr records)
  obtain rundupe heap0 where c: "copy self heap = (rundupe, heap0)"
    by (cases "copy self heap")
  obtain h1 c1 e1 where r: "write_records wr sch records rundupe heap0 header = (h1, c1, e1)"
    by (cases "write_records wr sch records rundupe heap0 header") auto
  let ?fs1 = "case e1 of Some e \<Rightarrow> fs(fpath \<mapsto> c1) | None \<Rightarrow> fs(fpath \<mapsto> (c1 @ footer))"
  have first: "W self (heap, fs) = (h1, ?fs1, e1)"
    by (simp add: W Inr c r split: option.splits)
  from copy_run [OF wf c r] have kept: "take (length heap) h1 = heap"
    by simp
  from view_kept [OF wf kept] have v: "view self h1 = view self heap" .
  obtain rundupeA heapA0 where cA: "copy self h1 = (rundupeA, heapA0)"
    by (cases "copy self h1")
  obtain h2 c2 e2 where rA: "write_records wr sch records rundupeA heapA0 header = (h2, c2, e2)"
    by (cases "write_records wr sch records rundupeA heapA0 header") auto
  from copy_rerun [OF wf kept c r cA rA] have same: "c2 = c1" "e2 = e1"
    by simp_all
  have "W self (h1, ?fs1) = (h2, ?fs1, e1)"
    by (simp add: W v Inr cA rA same split: option.splits)
  with first kept v show ?thesis
    by (simp add: reruns_def)
qed

lemma writers_rerun:
  assumes "well_formed self heap"
  shows "reruns (write_input_rrtm wr sch fpath) self heap fs"
    and "reruns (write_in_cld_rrtm wr sch fpath) self heap fs"
    and "reruns (write_in_aer_rrtm wr sch fpath) self heap fs"
proof -
  show "reruns (write_input_rrtm wr sch fpath) self heap fs"
    using assms
    by (rule file_writer_reruns [where kind = "''input_rrtm''" and wr = wr and sch = sch
          and header = "newline @ newline @ ''file auto-generated by parserrtm'' @ newline"
          and footer = "''%''" and fpath = fpath])
      (simp add: write_input_rrtm_def Let_def split: sum.splits prod.splits option.splits)
  show "reruns (write_in_cld_rrtm wr sch fpath) self heap fs"
    using assms
    by (rule file_writer_reruns [where kind = "''in_cld_rrtm''" and wr = wr and sch = sch
          and header = "[]"
          and footer = "''%'' @ newline @ ''file auto-generated by parserrtm''"
          and fpath = fpath])
      (simp add: write_in_cld_rrtm_def Let_def split: sum.splits prod.splits option.splits)
  show "reruns (write_in_aer_rrtm wr sch fpath) self heap fs"
    using assms
    by (rule file_writer_reruns [where kind = "''in_aer_rrtm''" and wr = wr and sch = sch
          and header = "[]"
          and footer = "''%'' @ newline @ ''file auto-generated by parserrtm''"
          and fpath = fpath])
      (simp add: write_in_aer_rrtm_def Let_def split: sum.splits prod.splits option.splits)
qed

lemma store_item_well_formed:
  "well_formed self heap
     \<Longrightarrow> well_formed (fst (store_item item (self, heap))) (snd (store_item item (self, heap)))"
proof -
  assume wf: "well_formed self heap"
  obtain key v where item: "item = (key, v)" by (cases item)
  from wf show ?thesis
    unfolding item by (cases v) (auto simp: well_formed_def less_Suc_eq)
qed

lemma new_object_well_formed: "well_formed (fst (new_object args)) (snd (new_object args))"
proof -
  have "well_formed (fst (fold store_item args sh)) (snd (fold store_item args sh))"
    if "well_formed (fst sh) (snd sh)" for sh
    using that
  proof (induction args arbitrary: sh)
    case Nil
    then show ?case by simp
  next
    case (Cons item args)
    from store_item_well_formed [OF Cons.prems, of item]
    have "well_formed (fst (store_item item sh)) (snd (store_item item sh))"
      by simp
    from Cons.IH [OF this] show ?case by simp
  qed
  then show ?thesis
    by (simp add: new_object_def well_formed_def)
qed

text \<open>
  Claim C8, as the code has it, for an object whose list objects are all in the heap, the
  heap being flat (there the lists of values of the model are the list objects of the
  program). One \<^verbatim>\<open>write_record\<close> that returns a line leaves every list object shorter by
  as many elements, from its front, as there are names in the record whose field it
  is: one for a list held by one field, none for a list the record does not name. It
  hands the encoder one value for each name, in order: a scalar field as it is, and for
  a list-valued field the element that earlier names have left at the front of its list.
  Each of the three file writers does this on a copy it takes itself: after a call every
  list object that there was is as before, the document reads as before, and a second
  call leaves the file system as the first did and ends as the first did.
\<close>

theorem write_pops_from_a_copy:
  assumes "well_formed self heap" and "flat heap"
    and "get_fields sch (view self heap) rec = Inr names"
    and "write_record wr sch rec self heap = (heap', Inr line)"
  shows "length heap' = length heap \<and>
         (\<forall>a<length heap. heap' ! a = drop (hits self a names) (heap ! a)) \<and>
         (\<exists>fmt vals. get_format sch (view self heap) rec = Inr fmt \<and> wr fmt vals = Inr line \<and>
            length vals = length names \<and>
            (\<forall>i<length names. \<exists>s. self (names ! i) = Some s \<and>
               vals ! i = (case s of Plain x \<Rightarrow> of_scalar x
                           | ListAt a \<Rightarrow> heap ! a ! hits self a (take i names)))) \<and>
         reruns (write_input_rrtm wr sch fpath) self heap fs \<and>
         reruns (write_in_cld_rrtm wr sch fpath) self heap fs \<and>
         reruns (write_in_aer_rrtm wr sch fpath) self heap fs"
proof -
  from assms(3,4) obtain fmt vals where
    fmt: "get_format sch (view self heap) rec = Inr fmt"
    and pops: "pop_fields self names heap [] = (heap', Inr vals)"
    and line: "wr fmt vals = Inr line"
    by (auto simp: write_record_def split: sum.splits prod.splits)
  from pop_fields_Inr [OF pops assms(1)]
  have cells: "\<forall>a<length heap. heap' ! a = drop (hits self a names) (heap ! a)"
    and len: "length vals = length names"
    and vals: "\<forall>i<length names. \<exists>s. self (names ! i) = Some s \<and>
               vals ! i = (case s of Plain x \<Rightarrow> of_scalar x
                           | ListAt a \<Rightarrow> heap ! a ! hits self a (take i names))"
    by simp_all
  from fmt line len vals
  have "\<exists>fmt vals. get_format sch (view self heap) rec = Inr fmt \<and> wr fmt vals = Inr line \<and>
            length vals = length names \<and>
            (\<forall>i<length names. \<exists>s. self (names ! i) = Some s \<and>
               vals ! i = (case s of Plain x \<Rightarrow> of_scalar x
                           | ListAt a \<Rightarrow> heap ! a ! hits self a (take i names)))"
    by blast
  with pop_fields_length [OF pops] cells writers_rerun [OF assms(1)] show ?thesis
    by simp
qed

theorem write_pops_from_a_copy_witness:
  "\<exists>heap'.
     write_record plain_writer InputLW ''2.1.1'' (fst shared_layer_doc) (snd shared_layer_doc)
       = (heap', Inr '' 1000 900 1013 295 990 288'') \<and>
     heap' ! 0 = [] \<and> heap' ! 2 = [VInt 990] \<and> heap' ! 6 = [VInt 11, VInt 21] \<and>
     reruns (write_input_rrtm plain_writer InputLW ''INPUT_RRTM'') (fst shared_layer_doc)
       (snd shared_layer_doc) Map.empty \<and>
     reruns (write_in_cld_rrtm plain_writer InputLW ''IN_CLD_RRTM'') (fst shared_layer_doc)
       (snd shared_layer_doc) Map.empty"
proof -
  let ?self = "fst shared_layer_doc" and ?heap = "snd shared_layer_doc"
  let ?names = "[''PAVE'', ''TAVE'', ''PZ(L-1)'', ''TZ(L-1)'', ''PZ(L)'', ''TZ(L)'']"
  have heap: "?heap = snd two_layer_doc" and self: "?self = (fst two_layer_doc)(''TAVE'' \<mapsto> ListAt 0)"
    by (simp_all add: shared_layer_doc_def case_prod_beta)
  have len: "length ?heap = 14"
    by code_simp
  have "well_formed (fst two_layer_doc) (snd two_layer_doc)"
    unfolding two_layer_doc_def by (rule new_object_well_formed)
  then have wf: "well_formed ?self ?heap"
    using len unfolding heap self by (simp add: well_formed_def)
  have fl: "flat ?heap"
    by code_simp
  have names: "get_fields InputLW (view ?self ?heap) ''2.1.1'' = Inr ?names"
    by (simp add: InputLW_def InputLW_get_fields_def)
  have "snd (write_record plain_writer InputLW ''2.1.1'' ?self ?heap)
      = Inr '' 1000 900 1013 295 990 288''"
    by code_simp
  then obtain heap' where w: "write_record plain_writer InputLW ''2.1.1'' ?self ?heap
      = (heap', Inr '' 1000 900 1013 295 990 288'')"
    by (cases "write_record plain_writer InputLW ''2.1.1'' ?self ?heap") auto
  have h: "hits ?self 0 ?names = 2" "hits ?self 2 ?names = 1" "hits ?self 6 ?names = 0"
    by code_simp+
  have c: "?heap ! 0 = [VInt 1000, VInt 900]" "?heap ! 2 = [VInt 1013, VInt 990]"
    "?heap ! 6 = [VInt 11, VInt 21]"
    by code_simp+
  from write_pops_from_a_copy [OF wf fl names w, of "''INPUT_RRTM''" Map.empty]
    write_pops_from_a_copy [OF wf fl names w, of "''IN_CLD_RRTM''" Map.empty]
  have cells: "\<forall>a<length ?heap. heap' ! a = drop (hits ?self a ?names) (?heap ! a)"
    and r: "reruns (write_input_rrtm plain_writer InputLW ''INPUT_RRTM'') ?self ?heap Map.empty"
      "reruns (write_in_cld_rrtm plain_writer InputLW ''IN_CLD_RRTM'') ?self ?heap Map.empty"
    by blast+
  from cells [rule_format, of 0] cells [rule_format, of 2] cells [rule_format, of 6]
  have "heap' ! 0 = []" "heap' ! 2 = [VInt 990]" "heap' ! 6 = [VInt 11, VInt 21]"
    by (simp_all add: len h c)
  with w r show ?thesis
    by blast
qed

section \<open>Properties of the unsupported spectral cloud records\<close>

text \<open>
  Claim C5 on the code: \<^verbatim>\<open>read_in_cld_rrtm\<close> has no guard for \<^verbatim>\<open>INFLAG == 10\<close>. With
  \<^verbatim>\<open>INFLAG=10\<close> decoded from the first record, a file with two cloud lines has both decoded
  as \<^verbatim>\<open>C1.3\<close> and then raises the KeyError of the record id \<^verbatim>\<open>'C1.3a'\<close>, which the schema
  spells \<^verbatim>\<open>'C1.3A'\<close>; a file with one cloud line is decoded without any error. Neither
  raises the not-implemented error, which both order functions raise for a document with
  this flag and two cloudy layers.
\<close>

theorem read_in_cld_rrtm_spectral_unguarded:
  "map_sum id (\<lambda>self. map (attrs self) [''INFLAG'', ''LAY'', ''TAUCLD''])
     (read_in_cld_rrtm (table_reader cld_table) InputLW
        [''   10    0    0'', ''    1 layer one'', ''    2 layer two'', ''%''] spectral_doc)
     = Inl (KeyError ''C1.3a'') \<and>
   map_sum id (\<lambda>self. map (attrs self) [''INFLAG'', ''LAY'', ''TAUCLD''])
     (read_in_cld_rrtm (table_reader cld_table) InputLW
        [''   10    0    0'', ''    1 layer one'', ''%''] spectral_doc)
     = Inr [Some (VInt 10), Some (VInt 1), Some (VInt 5)] \<and>
   get_logical_record_order spectral_cloud_doc ''in_cld_rrtm'' = Inl NotImplementedError \<and>
   get_explicit_record_order spectral_cloud_doc ''in_cld_rrtm'' = Inl NotImplementedError"
  by code_simp

section \<open>Properties of the greedy reader\<close>

lemma dict_set_fresh: "fst kv \<notin> fst ` set dict \<Longrightarrow> dict_set kv dict = dict @ [kv]"
  by (induction dict) auto

lemma fold_dict_set_fresh:
  "distinct (map fst kvs) \<Longrightarrow> fst ` set kvs \<inter> fst ` set dict = {}
     \<Longrightarrow> fold dict_set kvs dict = dict @ kvs"
proof (induction kvs arbitrary: dict)
  case Nil
  then show ?case by simp
next
  case (Cons kv kvs)
  have "dict_set kv dict = dict @ [kv]"
    using Cons.prems(2) by (intro dict_set_fresh) auto
  moreover have "fold dict_set kvs (dict @ [kv]) = (dict @ [kv]) @ kvs"
    using Cons.prems by (intro Cons.IH) auto
  ultimately show ?case by simp
qed

lemma drop_split:
  assumes "c0 \<le> c"
  shows "drop c0 xs = drop c0 (take c xs) @ drop c xs"
proof -
  have "drop c0 xs = drop c0 (take c xs @ drop c xs)"
    by simp
  also have "\<dots> = drop c0 (take c xs) @ drop (c0 - length (take c xs)) (drop c xs)"
    by (rule drop_append)
  also have "drop (c0 - length (take c xs)) (drop c xs) = drop c xs"
    using assms by (cases "c \<le> length xs") auto
  finally show ?thesis .
qed

lemma filter_unread:
  assumes "distinct xs" and "c0 \<le> c"
  shows "filter (\<lambda>v. v \<notin> set (take c xs)) (drop c0 xs) = drop c xs"
proof -
  have "distinct (take c xs @ drop c xs)"
    using assms(1) by simp
  then have "set (take c xs) \<inter> set (drop c xs) = {}"
    unfolding distinct_append by blast
  then have "filter (\<lambda>v. v \<notin> set (take c xs)) (drop c xs) = drop c xs"
    by (auto simp: filter_id_conv)
  moreover have "filter (\<lambda>v. v \<notin> set (take c xs)) (drop c0 (take c xs)) = []"
    by (auto simp: filter_empty_conv dest: in_set_dropD)
  ultimately show ?thesis
    by (simp add: drop_split [OF assms(2), of xs])
qed

lemma value_at_line: "j < k \<Longrightarrow> value_at k vss (t * k + j) = vss t ! j"
  by (simp add: value_at_def)

lemma filled_step:
  assumes "length (vss t) = k" and "t * k \<le> length names"
  shows "filled names k vss (t * k) @ zip (drop (t * k) names) (vss t)
       = filled names k vss (min (t * k + k) (length names))"
proof (rule nth_equalityI)
  show "length (filled names k vss (t * k) @ zip (drop (t * k) names) (vss t))
      = length (filled names k vss (min (t * k + k) (length names)))"
    using assms by (auto simp: filled_def)
next
  fix i assume "i < length (filled names k vss (t * k) @ zip (drop (t * k) names) (vss t))"
  then have i: "i < min (t * k + k) (length names)"
    using assms by (auto simp: filled_def)
  show "(filled names k vss (t * k) @ zip (drop (t * k) names) (vss t)) ! i
      = filled names k vss (min (t * k + k) (length names)) ! i"
  proof (cases "i < t * k")
    case True
    then show ?thesis using i assms by (simp add: filled_def nth_append)
  next
    case False
    define j where "j = i - t * k"
    have j: "j < k" "i = t * k + j" "t * k + j < length names"
      using False i by (auto simp: j_def)
    show ?thesis
      using assms j(1,3) unfolding j(2)
      by (simp add: filled_def nth_append value_at_line)
  qed
qed

lemma filled_keys: "c \<le> length names \<Longrightarrow> map fst (filled names k vss c) = take c names"
  by (simp add: filled_def map_fst_zip_take)

lemma filled_length: "c \<le> length names \<Longrightarrow> length (filled names k vss c) = c"
  by (simp add: filled_def)

lemma greedy_loop_fill:
  assumes "distinct names" and "0 < k" and "n = length names"
    and "\<forall>j<m. rd fmt (ls ! (r0 + j)) = Inr (vss j) \<and> length (vss j) = k"
    and "r0 + m \<le> length ls"
    and "(m - 1) * k < n" and "n \<le> m * k"
    and "1 \<le> t" and "t \<le> m"
    and "lines self = Some ls"
    and "read_i self = r0 + t"
    and "c0 \<le> min (t * k) n"
    and "dict = filled names k vss (min (t * k) n)"
  shows "greedy_loop rd fmt n (drop c0 names) dict self
       = Inr (filled names k vss n, self\<lparr>read_i := r0 + m\<rparr>)"
  using assms(8-13)
proof (induction "m - t" arbitrary: t self c0 dict)
  case 0
  then have tm: "t = m" by simp
  with assms(7) have full: "min (t * k) n = n" by simp
  have "length dict = n"
    unfolding 0(7) full using assms(3) by (simp add: filled_length)
  moreover have "self\<lparr>read_i := r0 + m\<rparr> = self"
    using 0(5) tm by simp
  ultimately show ?case
    using 0(7) full by (subst greedy_loop.simps) simp
next
  case (Suc d)
  then have tm: "t < m" by simp
  then have "t \<le> m - 1" by simp
  then have "t * k \<le> (m - 1) * k"
    by (rule mult_le_mono1)
  with assms(6) have part: "t * k < n"
    by linarith
  then have cur: "min (t * k) n = t * k" by simp
  have le: "t * k \<le> length names"
    using part assms(3) by simp
  have dict: "dict = filled names k vss (t * k)"
    using Suc.prems(6) cur by simp
  have len: "length dict < n"
    unfolding dict using part le by (simp add: filled_length)
  have keys: "map fst dict = take (t * k) names"
    unfolding dict using le by (rule filled_keys)
  have unread: "filter (\<lambda>var. var \<notin> set (map fst dict)) (drop c0 names) = drop (t * k) names"
    unfolding keys using assms(1) Suc.prems(5) cur by (intro filter_unread) simp_all
  have line: "line_at self = Inr (ls ! (r0 + t))"
    using Suc.prems(3,4) tm assms(5) by (simp add: line_at_def)
  from assms(4) tm have dec: "rd fmt (ls ! (r0 + t)) = Inr (vss t)" "length (vss t) = k"
    by auto
  let ?new = "zip (drop (t * k) names) (vss t)"
  have "distinct (map fst ?new)"
    using assms(1) by (simp add: map_fst_zip_take)
  moreover have "fst ` set ?new \<inter> fst ` set dict = {}"
  proof -
    have "distinct (take (t * k) names @ drop (t * k) names)"
      using assms(1) by simp
    then have "set (take (t * k) names) \<inter> set (drop (t * k) names) = {}"
      unfolding distinct_append by blast
    moreover have "fst ` set ?new \<subseteq> set (drop (t * k) names)"
      by (auto dest: set_zip_leftD)
    moreover have "fst ` set dict = set (take (t * k) names)"
      using keys by (metis set_map)
    ultimately show ?thesis by blast
  qed
  ultimately have "fold dict_set ?new dict = dict @ ?new"
    by (rule fold_dict_set_fresh)
  also have "\<dots> = filled names k vss (min (t * k + k) (length names))"
    unfolding dict using dec(2) le by (rule filled_step)
  also have "min (t * k + k) (length names) = min (Suc t * k) n"
    using assms(3) by (simp add: add.commute)
  finally have next_dict: "fold dict_set ?new dict = filled names k vss (min (Suc t * k) n)" .
  have "greedy_loop rd fmt n (drop (t * k) names) (fold dict_set ?new dict)
          (self\<lparr>read_i := read_i self + 1\<rparr>)
        = Inr (filled names k vss n, self\<lparr>read_i := read_i self + 1\<rparr>\<lparr>read_i := r0 + m\<rparr>)"
  proof (rule Suc.hyps(1))
    show "d = m - Suc t" using Suc.hyps(2) by simp
    show "1 \<le> Suc t" by simp
    show "Suc t \<le> m" using tm by simp
    show "lines (self\<lparr>read_i := read_i self + 1\<rparr>) = Some ls" using Suc.prems(3) by simp
    show "read_i (self\<lparr>read_i := read_i self + 1\<rparr>) = r0 + Suc t" using Suc.prems(4) by simp
    show "t * k \<le> min (Suc t * k) n" using part by simp
    show "fold dict_set ?new dict = filled names k vss (min (Suc t * k) n)" by (rule next_dict)
  qed
  then show ?case
    using len unread line dec(1) by (subst greedy_loop.simps) (simp add: Let_def)
qed

lemma fold_setattr_scalars:
  assumes "distinct (map fst kvs)"
  shows "fold (\<lambda>kv self. setattr self (fst kv) (of_scalar (snd kv))) kvs self
       = self\<lparr>attrs := (\<lambda>key. case map_of kvs key of
                                  None \<Rightarrow> attrs self key | Some v \<Rightarrow> Some (of_scalar v))\<rparr>"
  using assms
proof (induction kvs arbitrary: self)
  case Nil
  then show ?case by simp
next
  case (Cons kv kvs)
  have "map_of kvs (fst kv) = None"
    using Cons.prems by (simp add: map_of_eq_None_iff)
  then show ?case
    using Cons by (cases kv) (auto simp: setattr_def fun_eq_iff split: option.splits)
qed

lemma ceiling_lines:
  assumes "0 < k" and "0 < n" and "m = (n + k - 1) div k"
  shows "1 \<le> m \<and> (m - 1) * k < n \<and> n \<le> m * (k::nat)"
proof -
  have a: "m * k \<le> n + k - 1"
    unfolding assms(3) by simp
  have b: "n + k - 1 < k + m * k"
    unfolding assms(3) using assms(1) by (rule dividend_less_div_times)
  have "k \<le> n + k - 1"
    using assms(2) by simp
  then have "k div k \<le> (n + k - 1) div k"
    by (rule div_le_mono)
  then have m: "1 \<le> m"
    using assms(1,3) by simp
  then obtain m' where m': "m = Suc m'"
    by (cases m) auto
  from a b show ?thesis
    using m assms(1,2) unfolding m' by auto
qed

text \<open>
  Claim C6: for a greedy record with \<open>n\<close> distinct field names (at least one) whose
  format decodes \<open>k\<close> values from every line, \<^verbatim>\<open>read_greedy_record\<close> returns, having
  moved the cursor by exactly \<open>\<lceil>n / k\<rceil>\<close> lines; every name holds one decoded value, the
  name at position \<open>i\<close> the value at position \<open>i mod k\<close> of line \<open>i div k\<close>, which is
  declaration order across the lines read; and no other field changes.
\<close>

theorem read_greedy_record_lines:
  assumes "get_format sch self rec = Inr fmt" and "get_fields sch self rec = Inr names"
    and "distinct names" and "names \<noteq> []" and "0 < k"
    and "m = (length names + k - 1) div k"
    and "lines self = Some ls" and "read_i self + m \<le> length ls"
    and "\<forall>j<m. rd fmt (ls ! (read_i self + j)) = Inr (vss j) \<and> length (vss j) = k"
  shows "\<exists>self'. read_greedy_record rd sch rec self = Inr self' \<and>
           read_i self' = read_i self + m \<and> lines self' = lines self \<and>
           (\<forall>i<length names. attrs self' (names ! i) = Some (of_scalar (vss (i div k) ! (i mod k)))) \<and>
           (\<forall>key. key \<notin> set names \<longrightarrow> attrs self' key = attrs self key)"
proof -
  let ?n = "length names"
  let ?r0 = "read_i self"
  from assms(4) have n: "0 < ?n" by simp
  from ceiling_lines [OF assms(5) n assms(6)]
  have m: "1 \<le> m" "(m - 1) * k < ?n" "?n \<le> m * k"
    by simp_all
  have line: "line_at self = Inr (ls ! ?r0)"
    using assms(7,8) m(1) by (simp add: line_at_def)
  from assms(9) m(1) have first: "rd fmt (ls ! ?r0) = Inr (vss 0)" "length (vss 0) = k"
    by (metis add.right_neutral less_eq_Suc_le One_nat_def)+
  have "fold dict_set (zip names (vss 0)) [] = [] @ zip names (vss 0)"
    using assms(3) by (intro fold_dict_set_fresh) (simp_all add: map_fst_zip_take)
  also have "\<dots> = filled names k vss (0 * k) @ zip (drop (0 * k) names) (vss 0)"
    by (simp add: filled_def)
  also have "\<dots> = filled names k vss (min (0 * k + k) ?n)"
    using first(2) by (intro filled_step) simp_all
  finally have dict: "fold dict_set (zip names (vss 0)) [] = filled names k vss (min (1 * k) ?n)"
    by simp
  let ?self1 = "self\<lparr>read_i := ?r0 + 1\<rparr>"
  have "greedy_loop rd fmt ?n (drop 0 names) (fold dict_set (zip names (vss 0)) []) ?self1
      = Inr (filled names k vss ?n, ?self1\<lparr>read_i := ?r0 + m\<rparr>)"
    using assms(3,5) refl assms(9,8) m(2,3) _ m(1) _ _ _ dict
    by (rule greedy_loop_fill) (simp_all add: assms(7))
  then have loop: "greedy_loop rd fmt ?n names (fold dict_set (zip names (vss 0)) []) ?self1
      = Inr (filled names k vss ?n, self\<lparr>read_i := ?r0 + m\<rparr>)"
    by simp
  have keys: "map fst (filled names k vss ?n) = names"
    by (simp add: filled_keys)
  let ?self' = "fold (\<lambda>kv self. setattr self (fst kv) (of_scalar (snd kv)))
      (filled names k vss ?n) (self\<lparr>read_i := ?r0 + m\<rparr>)"
  have run: "read_greedy_record rd sch rec self = Inr ?self'"
    using assms(1,2) line first(1) loop by (simp add: read_greedy_record_def)
  have final: "?self' = self\<lparr>read_i := ?r0 + m,
      attrs := (\<lambda>key. case map_of (filled names k vss ?n) key of
                        None \<Rightarrow> attrs self key | Some v \<Rightarrow> Some (of_scalar v))\<rparr>"
    using assms(3) by (subst fold_setattr_scalars) (simp_all add: keys cong: option.case_cong)
  have got: "map_of (filled names k vss ?n) (names ! i) = Some (vss (i div k) ! (i mod k))"
    if "i < ?n" for i
  proof -
    have "map_of (zip names (map (value_at k vss) [0..<?n])) (names ! i)
        = Some (map (value_at k vss) [0..<?n] ! i)"
      using assms(3) that by (intro map_of_zip_nth) simp_all
    then show ?thesis
      using that by (simp add: filled_def value_at_def)
  qed
  have kept: "map_of (filled names k vss ?n) key = None" if "key \<notin> set names" for key
    using that keys by (metis map_of_eq_None_iff set_map)
  show ?thesis
    using run final got kept by (intro exI [of _ ?self']) simp
qed

theorem read_greedy_record_lines_witness:
  "\<exists>self'. read_greedy_record (table_reader boundary_table) InputLW ''3.3B'' boundary_reading
             = Inr self' \<and>
     read_i self' = 2 \<and>
     attrs self' ''ZBND(1)'' = Some (VInt 1) \<and>
     attrs self' ''ZBND(8)'' = Some (VInt 8) \<and>
     attrs self' ''ZBND(9)'' = Some (VInt 9) \<and>
     attrs self' ''ZBND(10)'' = Some (VInt 10) \<and>
     attrs self' ''IBMAX'' = Some (VInt 10)"
proof -
  let ?names = "[''ZBND(1)'', ''ZBND(2)'', ''ZBND(3)'', ''ZBND(4)'', ''ZBND(5)'', ''ZBND(6)'',
    ''ZBND(7)'', ''ZBND(8)'', ''ZBND(9)'', ''ZBND(10)'']"
  let ?vss = "\<lambda>j::nat. if j = 0 then map SInt [1, 2, 3, 4, 5, 6, 7, 8]
                       else map SInt [9, 10, 0, 0, 0, 0, 0, 0]"
  have ib: "attrs boundary_reading ''IBMAX'' = Some (VInt 10)"
    by (simp add: boundary_reading_def from_dict_lazy_def setattr_def)
  have f: "get_format InputLW boundary_reading ''3.3B'' = Inr ''(8F10.3)''"
    by (simp add: InputLW_def InputLW_get_format_def)
  have "InputLW_get_fields boundary_reading ''3.3B'' = Inr ?names"
    by code_simp
  then have g: "get_fields InputLW boundary_reading ''3.3B'' = Inr ?names"
    by (simp add: InputLW_def)
  have d: "distinct ?names"
    by simp
  have ne: "?names \<noteq> []"
    by simp
  have k: "0 < (8::nat)"
    by simp
  have m: "(2::nat) = (length ?names + 8 - 1) div 8"
    by simp
  have l: "lines boundary_reading = Some [''boundaries 1 to 8'', ''boundaries 9 and 10'', ''%'']"
    by (simp add: boundary_reading_def)
  have r: "read_i boundary_reading = 0"
    by (simp add: boundary_reading_def)
  have e: "read_i boundary_reading + 2 \<le> length [''boundaries 1 to 8'', ''boundaries 9 and 10'', ''%'']"
    by (simp add: r)
  have v: "\<forall>j<2. table_reader boundary_table ''(8F10.3)''
               ([''boundaries 1 to 8'', ''boundaries 9 and 10'', ''%''] ! (read_i boundary_reading + j))
             = Inr (?vss j) \<and> length (?vss j) = 8"
    by (simp add: r table_reader_def boundary_table_def less_Suc_eq numeral_2_eq_2)
  from read_greedy_record_lines
    [where rd = "table_reader boundary_table" and vss = ?vss, OF f g d ne k m l e v]
  obtain self' where
    run: "read_greedy_record (table_reader boundary_table) InputLW ''3.3B'' boundary_reading = Inr self'"
    and cur: "read_i self' = read_i boundary_reading + 2"
    and got: "\<forall>i<length ?names. attrs self' (?names ! i) = Some (of_scalar (?vss (i div 8) ! (i mod 8)))"
    and kept: "\<forall>key. key \<notin> set ?names \<longrightarrow> attrs self' key = attrs boundary_reading key"
    by blast
  have "attrs self' ''ZBND(1)'' = Some (VInt 1)"
    using got [rule_format, of 0] by simp
  moreover have "attrs self' ''ZBND(8)'' = Some (VInt 8)"
    using got [rule_format, of 7] by simp
  moreover have "attrs self' ''ZBND(9)'' = Some (VInt 9)"
    using got [rule_format, of 8] by simp
  moreover have "attrs self' ''ZBND(10)'' = Some (VInt 10)"
    using got [rule_format, of 9] by simp
  moreover from kept have "attrs self' ''IBMAX'' = attrs boundary_reading ''IBMAX''"
    by simp
  ultimately show ?thesis
    using run cur r ib by (intro exI [of _ self']) simp
qed


section \<open>Properties of the primary-file reader\<close>

subsection \<open>What a record read leaves alone\<close>

text \<open>A record read assigns the names of its record and nothing else; so does every
  loop of reads.\<close>

lemma assign_frame:
  assumes "assign mode kv self = Inr self'" and "key \<noteq> fst kv"
  shows "attrs self' key = attrs self key"
proof -
  consider "mode = ''new''" | "mode = ''append''" | "mode = ''append depth''"
    | "mode \<noteq> ''new''" "mode \<noteq> ''append''" "mode \<noteq> ''append depth''"
    by blast
  then show ?thesis
  proof cases
    case 1
    with assms show ?thesis by (auto simp: assign_def setattr_def Let_def)
  next
    case 2
    with assms show ?thesis by (auto simp: assign_def setattr_def Let_def bnd_Inr)
  next
    case 3
    with assms obtain l where l: "attr self (fst kv) = Inr l"
      by (auto simp: assign_def Let_def bnd_Inr)
    show ?thesis
    proof (cases l)
      case (VList xs)
      with assms 3 l show ?thesis
        by (cases "xs = []") (auto simp: assign_def setattr_def Let_def)
    qed (use assms 3 l in \<open>auto simp: assign_def Let_def split: if_splits\<close>)
  next
    case 4
    with assms show ?thesis by (auto simp: assign_def Let_def)
  qed
qed

lemma for_each_assign_frame:
  "for_each kvs (assign mode) self = Inr self' \<Longrightarrow> key \<notin> fst ` set kvs
     \<Longrightarrow> attrs self' key = attrs self key"
proof (induction kvs arbitrary: self)
  case Nil
  then show ?case by simp
next
  case (Cons kv kvs)
  from Cons.prems(1) obtain mid where
    "assign mode kv self = Inr mid" "for_each kvs (assign mode) mid = Inr self'"
    by (auto split: sum.splits)
  with Cons.IH [of mid] Cons.prems(2) show ?case
    by (auto dest: assign_frame)
qed

lemma read_record_Inr:
  assumes "read_record rd sch rec mode self = Inr self'"
  obtains ls fmt names vals mid where
    "lines self = Some ls" "read_i self < length ls"
    "get_format sch self rec = Inr fmt" "get_fields sch self rec = Inr names"
    "rd fmt (ls ! read_i self) = Inr vals"
    "for_each (zip names vals) (assign mode) self = Inr mid"
    "self' = mid\<lparr>read_i := read_i self + 1\<rparr>"
proof -
  from assms obtain s fmt names vals mid where
    s: "line_at self = Inr s" and f: "get_format sch self rec = Inr fmt"
    and n: "get_fields sch self rec = Inr names" and v: "rd fmt s = Inr vals"
    and a: "for_each (zip names vals) (assign mode) self = Inr mid"
    and e: "self' = mid\<lparr>read_i := read_i mid + 1\<rparr>"
    by (auto simp: read_record_def bnd_Inr)
  from s obtain ls where ls: "lines self = Some ls" "read_i self < length ls" "s = ls ! read_i self"
    by (auto simp: line_at_def split: option.splits if_splits)
  from for_each_assign_cursor [OF a] e have "self' = mid\<lparr>read_i := read_i self + 1\<rparr>"
    by simp
  with ls f n v a show thesis
    by (intro that) auto
qed

lemma read_record_frame:
  assumes "read_record rd sch rec mode self = Inr self'"
    and "get_fields sch self rec = Inr names" and "key \<notin> set names"
  shows "attrs self' key = attrs self key"
proof -
  from assms(1) obtain vals mid where
    "for_each (zip names vals) (assign mode) self = Inr mid"
    "self' = mid\<lparr>read_i := read_i self + 1\<rparr>"
    using assms(2) by (elim read_record_Inr) auto
  moreover have "key \<notin> fst ` set (zip names vals)"
    using assms(3) by (auto dest: set_zip_leftD)
  ultimately show ?thesis
    by (auto dest: for_each_assign_frame)
qed

lemma for_each_frame:
  assumes "for_each xs body self = Inr self'"
    and "\<And>x s s'. body x s = Inr s' \<Longrightarrow> attrs s' key = attrs s key"
  shows "attrs self' key = attrs self key"
  using assms(1)
proof (induction xs arbitrary: self)
  case Nil
  then show ?case by simp
next
  case (Cons x xs)
  from Cons.prems obtain mid where "body x self = Inr mid" "for_each xs body mid = Inr self'"
    by (auto split: sum.splits)
  with Cons.IH [of mid] assms(2) [of x self mid] show ?case
    by simp
qed

lemma fold_dict_set_keys: "fst ` set (fold dict_set kvs dict) = fst ` set dict \<union> fst ` set kvs"
proof (induction kvs arbitrary: dict)
  case Nil
  then show ?case by simp
next
  case (Cons kv kvs)
  have "fst ` set (dict_set kv dict) = insert (fst kv) (fst ` set dict)"
    by (induction dict) auto
  with Cons show ?case by auto
qed

lemma greedy_loop_frame:
  "greedy_loop rd fmt n names dict self = Inr (dict', self')
     \<Longrightarrow> fst ` set dict' \<subseteq> fst ` set dict \<union> set names \<and> attrs self' = attrs self"
proof (induction rd fmt n names dict self rule: greedy_loop.induct)
  case (1 rd fmt inames names dict self)
  show ?case
  proof (cases "length dict < inames")
    case False
    with "1.prems" show ?thesis
      by (subst (asm) greedy_loop.simps) auto
  next
    case True
    let ?names = "filter (\<lambda>var. var \<notin> set (map fst dict)) names"
    from "1.prems" True obtain s decoded where
      s: "line_at self = Inr s" and d: "rd fmt s = Inr decoded"
      and rest: "greedy_loop rd fmt inames ?names (fold dict_set (zip ?names decoded) dict)
           (self\<lparr>read_i := read_i self + 1\<rparr>) = Inr (dict', self')"
      by (subst (asm) greedy_loop.simps) (auto simp: Let_def split: sum.splits)
    from "1.IH" [OF True refl s d rest]
    have "fst ` set dict' \<subseteq> fst ` set (fold dict_set (zip ?names decoded) dict) \<union> set ?names"
      and "attrs self' = attrs self"
      by simp_all
    moreover have "fst ` set (zip ?names decoded) \<subseteq> set names"
      by (auto dest: set_zip_leftD)
    ultimately show ?thesis
      by (auto simp: fold_dict_set_keys)
  qed
qed

lemma fold_setattr_frame:
  "key \<notin> fst ` set kvs
     \<Longrightarrow> attrs (fold (\<lambda>kv self. setattr self (fst kv) (of_scalar (snd kv))) kvs self) key
         = attrs self key"
  by (induction kvs arbitrary: self) (auto simp: setattr_def)

lemma read_greedy_record_frame:
  assumes "read_greedy_record rd sch rec self = Inr self'"
    and "get_fields sch self rec = Inr names" and "key \<notin> set names"
  shows "attrs self' key = attrs self key"
proof -
  from assms(1,2) obtain fmt decoded dict' mid where
    loop: "greedy_loop rd fmt (length names) names (fold dict_set (zip names decoded) [])
         (self\<lparr>read_i := read_i self + 1\<rparr>) = Inr (dict', mid)"
    and fin: "self' = fold (\<lambda>kv self. setattr self (fst kv) (of_scalar (snd kv))) dict' mid"
    by (auto simp: read_greedy_record_def bnd_Inr)
  have "fst ` set (zip names decoded) \<subseteq> set names"
    by (auto dest: set_zip_leftD)
  moreover from greedy_loop_frame [OF loop]
  have "fst ` set dict' \<subseteq> fst ` set (zip names decoded) \<union> set names"
    and mid: "attrs mid = attrs self"
    by (simp_all add: fold_dict_set_keys)
  ultimately have "fst ` set dict' \<subseteq> set names"
    by blast
  with assms(3) have "key \<notin> fst ` set dict'"
    by blast
  then show ?thesis
    unfolding fin using mid by (simp add: fold_setattr_frame)
qed

subsection \<open>The field names of the longwave records\<close>

lemma LW_fields_profile [simp]:
  "InputLW_get_fields self ''2.1.1'' = Inr layer_names"
  "InputLW_get_fields self ''2.1.2'' = Inr gas_names"
  "InputLW_get_fields self ''2.1'' = Inr [''IFORM'', ''NLAYRS'', ''NMOL'']"
  by (simp_all add: InputLW_get_fields_def layer_names_def gas_names_def)

lemma LW_only_12_has_IATM:
  "InputLW_get_fields self rec = Inr names \<Longrightarrow> rec \<noteq> ''1.2'' \<Longrightarrow> ''IATM'' \<notin> set names"
  by (auto simp: InputLW_get_fields_def indexed_def bnd_Inr split: if_splits)

lemma LW_xs_records_fields:
  assumes "rec \<in> set [''2.2'', ''2.2.1'', ''2.2.2'', ''2.2.3'', ''2.2.4'']"
    and "InputLW_get_fields self rec = Inr names"
    and "key \<in> set ([''IXSECT'', ''IFORM'', ''NLAYRS'', ''NMOL''] @ layer_names @ gas_names)"
  shows "key \<notin> set names"
  using assms
  by (auto simp: InputLW_get_fields_def indexed_def bnd_Inr layer_names_def gas_names_def
      split: if_splits)

lemma LW_layer_fields:
  "key \<in> set ([''IFORM'', ''NLAYRS'', ''NMOL''] @ gas_names) \<Longrightarrow> key \<notin> set layer_names"
  "key \<in> set ([''IFORM'', ''NLAYRS'', ''NMOL''] @ layer_names) \<Longrightarrow> key \<notin> set gas_names"
  by (auto simp: layer_names_def gas_names_def)

lemma LW_xs_layer_fields:
  assumes "rec \<in> set [''2.2.3'', ''2.2.4'']" and "InputLW_get_fields self rec = Inr names"
  shows "''IXMOLS'' \<notin> set names"
  using assms by (auto simp: InputLW_get_fields_def indexed_def)

lemma LW_225_unreadable: "read_record rd InputLW ''2.2.5'' mode self \<noteq> Inr self'"
  by (auto simp: read_record_def InputLW_def InputLW_get_fields_def bnd_Inr)

subsection \<open>What a record read assigns\<close>

lemma as_list_scalar [simp]: "as_list (of_scalar x) = [of_scalar x]"
  by (cases x) auto

lemma assign_new_all:
  "for_each (zip names vals) (assign ''new'') s = Inr t \<Longrightarrow> distinct names
     \<Longrightarrow> i < length names \<Longrightarrow> i < length vals
     \<Longrightarrow> attrs t (names ! i) = Some (of_scalar (vals ! i))"
proof (induction names arbitrary: vals s i)
  case Nil
  then show ?case by simp
next
  case (Cons n ns)
  from Cons.prems(4) obtain v vs where vals: "vals = v # vs"
    by (cases vals) auto
  from Cons.prems(1) vals obtain mid where
    mid: "assign ''new'' (n, v) s = Inr mid" and rest: "for_each (zip ns vs) (assign ''new'') mid = Inr t"
    by (auto split: sum.splits)
  show ?case
  proof (cases i)
    case 0
    have "n \<notin> fst ` set (zip ns vs)"
      using Cons.prems(2) by (auto dest: set_zip_leftD)
    with rest have "attrs t n = attrs mid n"
      by (rule for_each_assign_frame)
    with mid 0 vals show ?thesis
      by (auto simp: assign_def setattr_def)
  next
    case (Suc j)
    with Cons.IH [OF rest, of j] Cons.prems vals show ?thesis
      by simp
  qed
qed

lemma assign_append_all:
  "for_each (zip names vals) (assign ''append'') s = Inr t \<Longrightarrow> distinct names
     \<Longrightarrow> i < length names \<Longrightarrow> i < length vals
     \<Longrightarrow> \<exists>old. attrs s (names ! i) = Some old \<and>
           attrs t (names ! i) = Some (VList (as_list old @ [of_scalar (vals ! i)]))"
proof (induction names arbitrary: vals s i)
  case Nil
  then show ?case by simp
next
  case (Cons n ns)
  from Cons.prems(4) obtain v vs where vals: "vals = v # vs"
    by (cases vals) auto
  from Cons.prems(1) vals obtain mid where
    mid: "assign ''append'' (n, v) s = Inr mid"
    and rest: "for_each (zip ns vs) (assign ''append'') mid = Inr t"
    by (auto split: sum.splits)
  show ?case
  proof (cases i)
    case 0
    have "n \<notin> fst ` set (zip ns vs)"
      using Cons.prems(2) by (auto dest: set_zip_leftD)
    with rest have "attrs t n = attrs mid n"
      by (rule for_each_assign_frame)
    with mid 0 vals show ?thesis
      by (auto simp: assign_def setattr_def bnd_Inr attr_def split: option.splits)
  next
    case (Suc j)
    have "ns ! j \<noteq> n"
      using Cons.prems(2,3) Suc by auto
    with mid have "attrs mid (ns ! j) = attrs s (ns ! j)"
      by (auto dest: assign_frame)
    with Cons.IH [OF rest, of j] Cons.prems vals Suc show ?thesis
      by simp
  qed
qed

text \<open>One record read, with everything it establishes.\<close>

lemma read_record_values:
  assumes "read_record rd InputLW rec mode s = Inr t"
    and "InputLW_get_fields s rec = Inr names" and "distinct names"
    and "lines s = Some ls"
    and "\<And>fmt l vals. InputLW_get_format s rec = Inr fmt \<Longrightarrow> rd fmt l = Inr vals
           \<Longrightarrow> length vals = length names"
  obtains fmt vals where
    "InputLW_get_format s rec = Inr fmt" "rd fmt (ls ! read_i s) = Inr vals"
    "length vals = length names"
    "read_i t = read_i s + 1" "lines t = Some ls"
    "\<And>key. key \<notin> set names \<Longrightarrow> attrs t key = attrs s key"
    "mode = ''new'' \<Longrightarrow> \<forall>i<length names. attrs t (names ! i) = Some (of_scalar (vals ! i))"
    "mode = ''append'' \<Longrightarrow> \<forall>i<length names. \<exists>old. attrs s (names ! i) = Some old \<and>
        attrs t (names ! i) = Some (VList (as_list old @ [of_scalar (vals ! i)]))"
proof -
  from assms(1) obtain ls' fmt names' vals mid where
    e: "lines s = Some ls'" "read_i s < length ls'"
      "get_format InputLW s rec = Inr fmt" "get_fields InputLW s rec = Inr names'"
      "rd fmt (ls' ! read_i s) = Inr vals"
      "for_each (zip names' vals) (assign mode) s = Inr mid"
      "t = mid\<lparr>read_i := read_i s + 1\<rparr>"
    by (rule read_record_Inr)
  from e(1,3,4) assms(2,4) have same: "ls' = ls" "names' = names"
    and fmt: "InputLW_get_format s rec = Inr fmt"
    by (simp_all add: InputLW_def)
  from assms(5) [OF fmt e(5)] have len: "length vals = length names" .
  from for_each_assign_cursor [OF e(6)] e(7) assms(4)
  have cur: "read_i t = read_i s + 1" "lines t = Some ls"
    by simp_all
  have frame: "attrs t key = attrs s key" if "key \<notin> set names" for key
    using assms(1,2) that by (intro read_record_frame [of rd InputLW rec mode s t names])
      (simp_all add: InputLW_def)
  have new: "\<forall>i<length names. attrs t (names ! i) = Some (of_scalar (vals ! i))"
    if "mode = ''new''"
    using e(6,7) that len assms(3) unfolding same by (auto dest: assign_new_all)
  have app: "\<forall>i<length names. \<exists>old. attrs s (names ! i) = Some old \<and>
        attrs t (names ! i) = Some (VList (as_list old @ [of_scalar (vals ! i)]))"
    if "mode = ''append''"
  proof (intro allI impI)
    fix i assume "i < length names"
    with assign_append_all [of names vals s mid i] e(6,7) that len assms(3) show
      "\<exists>old. attrs s (names ! i) = Some old \<and>
        attrs t (names ! i) = Some (VList (as_list old @ [of_scalar (vals ! i)]))"
      unfolding same by auto
  qed
  show thesis
    using fmt e(5) len cur frame new app unfolding same by (rule that)
qed

subsection \<open>The branches of the reader\<close>

text \<open>Only record \<^verbatim>\<open>1.2\<close> assigns \<^verbatim>\<open>IATM\<close>, so the branch taken after it is the one
  that the finished document shows.\<close>

lemma LW_read_keeps:
  assumes "read_record rd InputLW rec mode s = Inr s'"
    and "\<And>names. InputLW_get_fields s rec = Inr names \<Longrightarrow> key \<notin> set names"
  shows "attrs s' key = attrs s key"
proof -
  from assms(1) obtain names where n: "get_fields InputLW s rec = Inr names"
    by (rule read_record_Inr)
  then have "key \<notin> set names"
    using assms(2) by (simp add: InputLW_def)
  with assms(1) n show ?thesis
    by (rule read_record_frame)
qed

lemma LW_read_keeps_IATM:
  "read_record rd InputLW rec mode s = Inr s' \<Longrightarrow> rec \<noteq> ''1.2''
     \<longrightarrow> attrs s' ''IATM'' = attrs s ''IATM''"
  by (auto intro: LW_read_keeps dest: LW_only_12_has_IATM)

lemma LW_greedy_keeps_IATM:
  assumes "read_greedy_record rd InputLW rec s = Inr s'" and "rec \<noteq> ''1.2''"
  shows "attrs s' ''IATM'' = attrs s ''IATM''"
proof -
  from assms(1) obtain names where n: "get_fields InputLW s rec = Inr names"
    by (auto simp: read_greedy_record_def bnd_Inr)
  then have "''IATM'' \<notin> set names"
    using assms(2) by (auto simp: InputLW_def dest: LW_only_12_has_IATM)
  with assms(1) n show ?thesis
    by (rule read_greedy_record_frame)
qed

lemma for_range_frame:
  assumes "for_range name body s = Inr s'"
    and "\<And>i a b. body i a = Inr b \<Longrightarrow> attrs b key = attrs a key"
  shows "attrs s' key = attrs s key"
  using assms by (auto simp: for_range_def bnd_Inr elim: for_each_frame)

lemma read_layer_IATM: "read_layer rd InputLW i s = Inr s' \<Longrightarrow> attrs s' ''IATM'' = attrs s ''IATM''"
  by (auto simp: read_layer_def bnd_Inr split: if_splits dest!: LW_read_keeps_IATM)

lemma read_xs_layer_IATM:
  "read_xs_layer rd InputLW i s = Inr s' \<Longrightarrow> attrs s' ''IATM'' = attrs s ''IATM''"
  by (auto simp: read_xs_layer_def bnd_Inr split: if_splits dest!: LW_read_keeps_IATM)

lemma read_level_IATM: "read_level rd InputLW i s = Inr s' \<Longrightarrow> attrs s' ''IATM'' = attrs s ''IATM''"
  by (auto simp: read_level_def bnd_Inr dest!: LW_read_keeps_IATM)

lemma read_xs_level_IATM:
  "read_xs_level rd InputLW i s = Inr s' \<Longrightarrow> attrs s' ''IATM'' = attrs s ''IATM''"
  by (auto simp: read_xs_level_def bnd_Inr dest!: LW_read_keeps_IATM)

lemma for_range_layers_IATM:
  "for_range name (read_layer rd InputLW) s = Inr s' \<Longrightarrow> attrs s' ''IATM'' = attrs s ''IATM''"
  "for_range name (read_xs_layer rd InputLW) s = Inr s' \<Longrightarrow> attrs s' ''IATM'' = attrs s ''IATM''"
  "for_range name (read_level rd InputLW) s = Inr s' \<Longrightarrow> attrs s' ''IATM'' = attrs s ''IATM''"
  "for_range name (read_xs_level rd InputLW) s = Inr s' \<Longrightarrow> attrs s' ''IATM'' = attrs s ''IATM''"
  by (erule for_range_frame, erule read_layer_IATM read_xs_layer_IATM read_level_IATM
      read_xs_level_IATM)+

lemma read_user_profile_Inr:
  assumes "read_user_profile rd sch s = Inr s'"
  shows "\<exists>s4 sL x.
    read_record rd sch ''2.1'' ''new'' s = Inr s4 \<and>
    for_range ''NLAYRS'' (read_layer rd sch) s4 = Inr sL \<and>
    attrs sL ''IXSECT'' = Some x \<and>
    (\<not> py_eq x 1 \<longrightarrow> s' = sL) \<and>
    (py_eq x 1 \<longrightarrow> (\<exists>u1 u2 u3. read_record rd sch ''2.2'' ''new'' sL = Inr u1 \<and>
        read_record rd sch ''2.2.1'' ''new'' u1 = Inr u2 \<and>
        read_record rd sch ''2.2.2'' ''new'' u2 = Inr u3 \<and>
        for_range ''NLAYRS'' (read_xs_layer rd sch) u3 = Inr s'))"
proof -
  from assms obtain s4 sL x where
    a: "read_record rd sch ''2.1'' ''new'' s = Inr s4"
    and b: "for_range ''NLAYRS'' (read_layer rd sch) s4 = Inr sL"
    and c: "attr sL ''IXSECT'' = Inr x"
    and d: "(if py_eq x 1 then
       bnd (read_record rd sch ''2.2'' ''new'' sL) (\<lambda>self.
       bnd (read_record rd sch ''2.2.1'' ''new'' self) (\<lambda>self.
       bnd (read_record rd sch ''2.2.2'' ''new'' self) (\<lambda>self.
       for_range ''NLAYRS'' (read_xs_layer rd sch) self)))
     else Inr sL) = Inr s'"
    unfolding read_user_profile_def bnd_Inr by blast
  from c have x: "attrs sL ''IXSECT'' = Some x"
    by (simp add: attr_def split: option.splits)
  have "s' = sL" if "\<not> py_eq x 1"
    using d that by simp
  moreover have "\<exists>u1 u2 u3. read_record rd sch ''2.2'' ''new'' sL = Inr u1 \<and>
        read_record rd sch ''2.2.1'' ''new'' u1 = Inr u2 \<and>
        read_record rd sch ''2.2.2'' ''new'' u2 = Inr u3 \<and>
        for_range ''NLAYRS'' (read_xs_layer rd sch) u3 = Inr s'" if "py_eq x 1"
    using d that by (simp add: bnd_Inr)
  ultimately show ?thesis
    using a b x by blast
qed

lemma read_user_profile_IATM:
  assumes "read_user_profile rd InputLW s = Inr s'"
  shows "attrs s' ''IATM'' = attrs s ''IATM''"
proof -
  note loops = for_range_layers_IATM
  obtain s4 sL x where
    a: "read_record rd InputLW ''2.1'' ''new'' s = Inr s4"
    and b: "for_range ''NLAYRS'' (read_layer rd InputLW) s4 = Inr sL"
    and "attrs sL ''IXSECT'' = Some x"
    and c: "\<not> py_eq x 1 \<Longrightarrow> s' = sL"
    and d: "py_eq x 1 \<Longrightarrow> \<exists>u1 u2 u3. read_record rd InputLW ''2.2'' ''new'' sL = Inr u1 \<and>
        read_record rd InputLW ''2.2.1'' ''new'' u1 = Inr u2 \<and>
        read_record rd InputLW ''2.2.2'' ''new'' u2 = Inr u3 \<and>
        for_range ''NLAYRS'' (read_xs_layer rd InputLW) u3 = Inr s'"
    using read_user_profile_Inr [OF assms] by blast
  from a have "attrs s4 ''IATM'' = attrs s ''IATM''"
    by (auto dest!: LW_read_keeps_IATM)
  moreover from b have "attrs sL ''IATM'' = attrs s4 ''IATM''"
    by (rule loops)
  moreover have "attrs s' ''IATM'' = attrs sL ''IATM''"
  proof (cases "py_eq x 1")
    case True
    from d [OF True] show ?thesis
      by (auto dest!: LW_read_keeps_IATM loops)
  next
    case False
    with c show ?thesis by simp
  qed
  ultimately show ?thesis by simp
qed

lemma read_atmosphere_Inr:
  assumes "read_atmosphere rd sch s = Inr s'"
  shows "\<exists>s1 s2 IBMAX s3 MODEL s4 IXSECT.
    read_record rd sch ''3.1'' ''new'' s = Inr s1 \<and>
    read_record rd sch ''3.2'' ''new'' s1 = Inr s2 \<and>
    (if py_eq IBMAX 0 then read_record rd sch ''3.3A'' ''new'' s2
             else read_greedy_record rd sch ''3.3B'' s2) = Inr s3 \<and>
    (if py_eq MODEL 0 then
               bnd (read_record rd sch ''3.4'' ''new'' s3)
                 (for_range ''IMMAX'' (read_level rd sch))
             else Inr s3) = Inr s4 \<and>
    (if py_eq IXSECT 1 then
               bnd (read_record rd sch ''3.7'' ''new'' s4) (\<lambda>self.
               bnd (read_record rd sch ''3.7.1'' ''new'' self) (\<lambda>self.
               bnd (attr self ''IPRFL'') (\<lambda>IPRFL.
               if py_eq IPRFL 0 then
                 bnd (read_record rd sch ''3.8'' ''new'' self)
                   (for_range ''LAYX'' (read_xs_level rd sch))
               else Inr self)))
             else Inr s4) = Inr s'"
proof -
  from assms obtain s1 where a: "read_record rd sch ''3.1'' ''new'' s = Inr s1"
    and r1: "bnd (read_record rd sch ''3.2'' ''new'' s1) (\<lambda>self.
     bnd (attr self ''IBMAX'') (\<lambda>IBMAX.
     bnd (if py_eq IBMAX 0 then read_record rd sch ''3.3A'' ''new'' self
          else read_greedy_record rd sch ''3.3B'' self) (\<lambda>self.
     bnd (attr self ''MODEL'') (\<lambda>MODEL.
     bnd (if py_eq MODEL 0 then
            bnd (read_record rd sch ''3.4'' ''new'' self) (\<lambda>self.
            for_range ''IMMAX'' (read_level rd sch) self)
          else Inr self) (\<lambda>self.
     bnd (attr self ''IXSECT'') (\<lambda>IXSECT.
     if py_eq IXSECT 1 then
       bnd (read_record rd sch ''3.7'' ''new'' self) (\<lambda>self.
       bnd (read_record rd sch ''3.7.1'' ''new'' self) (\<lambda>self.
       bnd (attr self ''IPRFL'') (\<lambda>IPRFL.
       if py_eq IPRFL 0 then
         bnd (read_record rd sch ''3.8'' ''new'' self) (\<lambda>self.
         for_range ''LAYX'' (read_xs_level rd sch) self)
       else Inr self)))
     else Inr self)))))) = Inr s'"
    unfolding read_atmosphere_def by (cases "read_record rd sch ''3.1'' ''new'' s") auto
  from r1 obtain s2 where b: "read_record rd sch ''3.2'' ''new'' s1 = Inr s2"
    and r2: "bnd (attr s2 ''IBMAX'') (\<lambda>IBMAX.
     bnd (if py_eq IBMAX 0 then read_record rd sch ''3.3A'' ''new'' s2
          else read_greedy_record rd sch ''3.3B'' s2) (\<lambda>self.
     bnd (attr self ''MODEL'') (\<lambda>MODEL.
     bnd (if py_eq MODEL 0 then
            bnd (read_record rd sch ''3.4'' ''new'' self) (\<lambda>self.
            for_range ''IMMAX'' (read_level rd sch) self)
          else Inr self) (\<lambda>self.
     bnd (attr self ''IXSECT'') (\<lambda>IXSECT.
     if py_eq IXSECT 1 then
       bnd (read_record rd sch ''3.7'' ''new'' self) (\<lambda>self.
       bnd (read_record rd sch ''3.7.1'' ''new'' self) (\<lambda>self.
       bnd (attr self ''IPRFL'') (\<lambda>IPRFL.
       if py_eq IPRFL 0 then
         bnd (read_record rd sch ''3.8'' ''new'' self) (\<lambda>self.
         for_range ''LAYX'' (read_xs_level rd sch) self)
       else Inr self)))
     else Inr self))))) = Inr s'"
    by (cases "read_record rd sch ''3.2'' ''new'' s1") auto
  from r2 obtain IBMAX where
    r3: "bnd (if py_eq IBMAX 0 then read_record rd sch ''3.3A'' ''new'' s2
          else read_greedy_record rd sch ''3.3B'' s2) (\<lambda>self.
     bnd (attr self ''MODEL'') (\<lambda>MODEL.
     bnd (if py_eq MODEL 0 then
            bnd (read_record rd sch ''3.4'' ''new'' self) (\<lambda>self.
            for_range ''IMMAX'' (read_level rd sch) self)
          else Inr self) (\<lambda>self.
     bnd (attr self ''IXSECT'') (\<lambda>IXSECT.
     if py_eq IXSECT 1 then
       bnd (read_record rd sch ''3.7'' ''new'' self) (\<lambda>self.
       bnd (read_record rd sch ''3.7.1'' ''new'' self) (\<lambda>self.
       bnd (attr self ''IPRFL'') (\<lambda>IPRFL.
       if py_eq IPRFL 0 then
         bnd (read_record rd sch ''3.8'' ''new'' self) (\<lambda>self.
         for_range ''LAYX'' (read_xs_level rd sch) self)
       else Inr self)))
     else Inr self)))) = Inr s'"
    by (cases "attr s2 ''IBMAX''") auto
  from r3 obtain s3 where c: "(if py_eq IBMAX 0 then read_record rd sch ''3.3A'' ''new'' s2
          else read_greedy_record rd sch ''3.3B'' s2) = Inr s3"
    and r4: "bnd (attr s3 ''MODEL'') (\<lambda>MODEL.
     bnd (if py_eq MODEL 0 then
            bnd (read_record rd sch ''3.4'' ''new'' s3) (\<lambda>self.
            for_range ''IMMAX'' (read_level rd sch) self)
          else Inr s3) (\<lambda>self.
     bnd (attr self ''IXSECT'') (\<lambda>IXSECT.
     if py_eq IXSECT 1 then
       bnd (read_record rd sch ''3.7'' ''new'' self) (\<lambda>self.
       bnd (read_record rd sch ''3.7.1'' ''new'' self) (\<lambda>self.
       bnd (attr self ''IPRFL'') (\<lambda>IPRFL.
       if py_eq IPRFL 0 then
         bnd (read_record rd sch ''3.8'' ''new'' self) (\<lambda>self.
         for_range ''LAYX'' (read_xs_level rd sch) self)
       else Inr self)))
     else Inr self))) = Inr s'"
    by (cases "if py_eq IBMAX 0 then read_record rd sch ''3.3A'' ''new'' s2
          else read_greedy_record rd sch ''3.3B'' s2") (simp_all del: if_split cong: if_cong)
  from r4 obtain MODEL where
    r5: "bnd (if py_eq MODEL 0 then
            bnd (read_record rd sch ''3.4'' ''new'' s3) (\<lambda>self.
            for_range ''IMMAX'' (read_level rd sch) self)
          else Inr s3) (\<lambda>self.
     bnd (attr self ''IXSECT'') (\<lambda>IXSECT.
     if py_eq IXSECT 1 then
       bnd (read_record rd sch ''3.7'' ''new'' self) (\<lambda>self.
       bnd (read_record rd sch ''3.7.1'' ''new'' self) (\<lambda>self.
       bnd (attr self ''IPRFL'') (\<lambda>IPRFL.
       if py_eq IPRFL 0 then
         bnd (read_record rd sch ''3.8'' ''new'' self) (\<lambda>self.
         for_range ''LAYX'' (read_xs_level rd sch) self)
       else Inr self)))
     else Inr self)) = Inr s'"
    by (cases "attr s3 ''MODEL''") auto
  from r5 obtain s4 where d: "(if py_eq MODEL 0 then
            bnd (read_record rd sch ''3.4'' ''new'' s3) (\<lambda>self.
            for_range ''IMMAX'' (read_level rd sch) self)
          else Inr s3) = Inr s4"
    and r6: "bnd (attr s4 ''IXSECT'') (\<lambda>IXSECT.
     if py_eq IXSECT 1 then
       bnd (read_record rd sch ''3.7'' ''new'' s4) (\<lambda>self.
       bnd (read_record rd sch ''3.7.1'' ''new'' self) (\<lambda>self.
       bnd (attr self ''IPRFL'') (\<lambda>IPRFL.
       if py_eq IPRFL 0 then
         bnd (read_record rd sch ''3.8'' ''new'' self) (\<lambda>self.
         for_range ''LAYX'' (read_xs_level rd sch) self)
       else Inr self)))
     else Inr s4) = Inr s'"
    by (cases "if py_eq MODEL 0 then
            bnd (read_record rd sch ''3.4'' ''new'' s3) (\<lambda>self.
            for_range ''IMMAX'' (read_level rd sch) self)
          else Inr s3") (simp_all del: if_split cong: if_cong)
  from r6 obtain IXSECT where e: "(if py_eq IXSECT 1 then
       bnd (read_record rd sch ''3.7'' ''new'' s4) (\<lambda>self.
       bnd (read_record rd sch ''3.7.1'' ''new'' self) (\<lambda>self.
       bnd (attr self ''IPRFL'') (\<lambda>IPRFL.
       if py_eq IPRFL 0 then
         bnd (read_record rd sch ''3.8'' ''new'' self) (\<lambda>self.
         for_range ''LAYX'' (read_xs_level rd sch) self)
       else Inr self)))
     else Inr s4) = Inr s'"
    by (cases "attr s4 ''IXSECT''") auto
  from a b c d e show ?thesis
    by (intro exI conjI)
qed

lemma read_atmosphere_IATM:
  assumes "read_atmosphere rd InputLW s = Inr s'"
  shows "attrs s' ''IATM'' = attrs s ''IATM''"
proof -
  note loops = for_range_layers_IATM
  from read_atmosphere_Inr [OF assms] obtain s1 s2 IBMAX s3 MODEL s4 IXSECT where
    a: "read_record rd InputLW ''3.1'' ''new'' s = Inr s1"
    and b: "read_record rd InputLW ''3.2'' ''new'' s1 = Inr s2"
    and c: "(if py_eq IBMAX 0 then read_record rd InputLW ''3.3A'' ''new'' s2
             else read_greedy_record rd InputLW ''3.3B'' s2) = Inr s3"
    and d: "(if py_eq MODEL 0 then
               bnd (read_record rd InputLW ''3.4'' ''new'' s3)
                 (for_range ''IMMAX'' (read_level rd InputLW))
             else Inr s3) = Inr s4"
    and e: "(if py_eq IXSECT 1 then
               bnd (read_record rd InputLW ''3.7'' ''new'' s4) (\<lambda>self.
               bnd (read_record rd InputLW ''3.7.1'' ''new'' self) (\<lambda>self.
               bnd (attr self ''IPRFL'') (\<lambda>IPRFL.
               if py_eq IPRFL 0 then
                 bnd (read_record rd InputLW ''3.8'' ''new'' self)
                   (for_range ''LAYX'' (read_xs_level rd InputLW))
               else Inr self)))
             else Inr s4) = Inr s'"
    by blast
  from a have 1: "attrs s1 ''IATM'' = attrs s ''IATM''"
    by (auto dest!: LW_read_keeps_IATM)
  from b have 2: "attrs s2 ''IATM'' = attrs s1 ''IATM''"
    by (auto dest!: LW_read_keeps_IATM)
  from c have 3: "attrs s3 ''IATM'' = attrs s2 ''IATM''"
    by (auto split: if_splits dest!: LW_read_keeps_IATM dest: LW_greedy_keeps_IATM)
  have 4: "attrs s4 ''IATM'' = attrs s3 ''IATM''"
  proof (cases "py_eq MODEL 0")
    case True
    with d obtain t where "read_record rd InputLW ''3.4'' ''new'' s3 = Inr t"
      "for_range ''IMMAX'' (read_level rd InputLW) t = Inr s4"
      by (auto simp: bnd_Inr)
    then show ?thesis
      by (auto dest!: LW_read_keeps_IATM loops)
  next
    case False
    with d show ?thesis by simp
  qed
  have 5: "attrs s' ''IATM'' = attrs s4 ''IATM''"
  proof (cases "py_eq IXSECT 1")
    case True
    with e obtain t1 t2 IPRFL where t: "read_record rd InputLW ''3.7'' ''new'' s4 = Inr t1"
      "read_record rd InputLW ''3.7.1'' ''new'' t1 = Inr t2"
      and f: "(if py_eq IPRFL 0 then
                 bnd (read_record rd InputLW ''3.8'' ''new'' t2)
                   (for_range ''LAYX'' (read_xs_level rd InputLW))
               else Inr t2) = Inr s'"
      by (auto simp: bnd_Inr)
    from t have "attrs t2 ''IATM'' = attrs s4 ''IATM''"
      by (auto dest!: LW_read_keeps_IATM)
    moreover have "attrs s' ''IATM'' = attrs t2 ''IATM''"
    proof (cases "py_eq IPRFL 0")
      case True
      with f obtain t3 where "read_record rd InputLW ''3.8'' ''new'' t2 = Inr t3"
        "for_range ''LAYX'' (read_xs_level rd InputLW) t3 = Inr s'"
        by (auto simp: bnd_Inr)
      then show ?thesis
        by (auto dest!: LW_read_keeps_IATM loops)
    next
      case False
      with f show ?thesis by simp
    qed
    ultimately show ?thesis by simp
  next
    case False
    with e show ?thesis by simp
  qed
  from 1 2 3 4 5 show ?thesis by simp
qed

lemma LW_xs_read_keeps:
  assumes "read_record rd InputLW rec mode s = Inr s'"
    and "rec \<in> set [''2.2'', ''2.2.1'', ''2.2.2'', ''2.2.3'', ''2.2.4'']"
    and "key \<in> set ([''IXSECT'', ''IFORM'', ''NLAYRS'', ''NMOL''] @ layer_names @ gas_names)"
  shows "attrs s' key = attrs s key"
  using assms(1) by (rule LW_read_keeps) (rule LW_xs_records_fields [OF assms(2) _ assms(3)])

lemma read_xs_layer_Inr:
  assumes "read_xs_layer rd InputLW i s = Inr s'"
  obtains a y where "read_record rd InputLW ''2.2.3'' (mode_of i) s = Inr a"
    "read_record rd InputLW ''2.2.4'' (mode_of i) a = Inr s'"
    "attrs s' ''IXMOLS'' = Some y" "py_gt y 7 = Inr False"
proof -
  from assms obtain a b y more where
    1: "read_record rd InputLW ''2.2.3'' (mode_of i) s = Inr a"
    and 2: "read_record rd InputLW ''2.2.4'' (mode_of i) a = Inr b"
    and 3: "attr b ''IXMOLS'' = Inr y" and 4: "py_gt y 7 = Inr more"
    and 5: "(if more then read_record rd InputLW ''2.2.5'' (mode_of i) b else Inr b) = Inr s'"
    unfolding read_xs_layer_def bnd_Inr by blast
  from 5 have more: "\<not> more" and s': "s' = b"
    by (auto split: if_splits simp: LW_225_unreadable)
  from 3 have "attrs b ''IXMOLS'' = Some y"
    by (simp add: attr_def split: option.splits)
  with 1 2 4 more s' show thesis
    by (intro that [of a y]) simp_all
qed

lemma read_xs_layer_keeps:
  assumes "read_xs_layer rd InputLW i s = Inr s'"
    and "key \<in> set ([''IXSECT'', ''IFORM'', ''NLAYRS'', ''NMOL''] @ layer_names @ gas_names)"
  shows "attrs s' key = attrs s key"
proof -
  from assms(1) obtain a where
    1: "read_record rd InputLW ''2.2.3'' (mode_of i) s = Inr a"
    and 2: "read_record rd InputLW ''2.2.4'' (mode_of i) a = Inr s'"
    by (rule read_xs_layer_Inr)
  from LW_xs_read_keeps [OF 1 _ assms(2)] LW_xs_read_keeps [OF 2 _ assms(2)]
  show ?thesis by simp
qed

lemma LW_213_fields:
  "InputLW_get_fields s ''2.1.3'' = Inr names \<Longrightarrow> key \<in> set [''IFORM'', ''NLAYRS'', ''NMOL'']
     \<Longrightarrow> key \<notin> set names"
  by (auto simp: InputLW_get_fields_def bnd_Inr)

lemma read_layer_keeps:
  assumes "read_layer rd InputLW i s = Inr s'" and "key \<in> set [''IFORM'', ''NLAYRS'', ''NMOL'']"
  shows "attrs s' key = attrs s key"
proof -
  from assms(1) obtain a b y more where
    1: "read_record rd InputLW ''2.1.1'' (mode_of i) s = Inr a"
    and 2: "read_record rd InputLW ''2.1.2'' (mode_of i) a = Inr b"
    and 3: "(if more then read_record rd InputLW ''2.1.3'' (mode_of i) b else Inr b) = Inr s'"
    unfolding read_layer_def bnd_Inr by blast
  from 1 have "attrs a key = attrs s key"
    by (rule LW_read_keeps) (use assms(2) in \<open>auto simp: layer_names_def\<close>)
  moreover from 2 have "attrs b key = attrs a key"
    by (rule LW_read_keeps) (use assms(2) in \<open>auto simp: gas_names_def\<close>)
  moreover have "attrs s' key = attrs b key"
  proof (cases more)
    case True
    with 3 have "read_record rd InputLW ''2.1.3'' (mode_of i) b = Inr s'" by simp
    then show ?thesis
      by (rule LW_read_keeps) (rule LW_213_fields [OF _ assms(2)])
  next
    case False
    with 3 show ?thesis by simp
  qed
  ultimately show ?thesis by simp
qed

lemma read_layer_two_reads:
  assumes "read_layer rd InputLW i s = Inr s'" and "attrs s ''NMOL'' = Some (VInt 7)"
  obtains m where "read_record rd InputLW ''2.1.1'' (mode_of i) s = Inr m"
    "read_record rd InputLW ''2.1.2'' (mode_of i) m = Inr s'"
proof -
  from assms(1) obtain a b y more where
    1: "read_record rd InputLW ''2.1.1'' (mode_of i) s = Inr a"
    and 2: "read_record rd InputLW ''2.1.2'' (mode_of i) a = Inr b"
    and y: "attr b ''NMOL'' = Inr y" and more: "py_gt y 7 = Inr more"
    and 3: "(if more then read_record rd InputLW ''2.1.3'' (mode_of i) b else Inr b) = Inr s'"
    unfolding read_layer_def bnd_Inr by blast
  from 1 have "attrs a ''NMOL'' = attrs s ''NMOL''"
    by (rule LW_read_keeps) (auto simp: layer_names_def)
  moreover from 2 have "attrs b ''NMOL'' = attrs a ''NMOL''"
    by (rule LW_read_keeps) (auto simp: gas_names_def)
  ultimately have "attr b ''NMOL'' = Inr (VInt 7)"
    using assms(2) by simp
  with y more have "\<not> more" by auto
  with 3 have "s' = b" by simp
  with 1 2 show thesis by (intro that [of a]) simp_all
qed

lemma py_range_two: "py_range 0 2 = [0, 1]"
  by (simp add: py_range_def upto.simps)

lemma for_range_two:
  assumes "for_range name body s = Inr s'" and "attrs s name = Some (VInt 2)"
  obtains a where "body 0 s = Inr a" "body 1 a = Inr s'"
  using assms by (auto simp: for_range_def py_range_two split: sum.splits)

lemma read_input_rrtm_Inr:
  assumes "read_input_rrtm rd sch ls self0 = Inr self"
  shows "\<exists>start_i end_i s1 s2 s3 v sA.
    get_input_rrtm_file_bounds ls ''input_rrtm'' = Inr (start_i, end_i) \<and>
    read_record rd sch ''1.1'' ''new'' (self0\<lparr>lines := Some ls, read_i := start_i\<rparr>) = Inr s1 \<and>
    read_record rd sch ''1.2'' ''new'' s1 = Inr s2 \<and>
    read_record rd sch ''1.4'' ''new'' s2 = Inr s3 \<and>
    attrs s3 ''IATM'' = Some v \<and>
    (if py_eq v 0 then read_user_profile rd sch s3
     else if py_eq v 1 then read_atmosphere rd sch s3
     else Inr s3) = Inr sA \<and>
    self = sA\<lparr>lines := None\<rparr>"
proof -
  from assms obtain b where b: "get_input_rrtm_file_bounds ls ''input_rrtm'' = Inr b"
    and r: "(case b of (start_i, end_i) \<Rightarrow>
     bnd (read_record rd sch ''1.1'' ''new'' (self0\<lparr>lines := Some ls, read_i := start_i\<rparr>)) (\<lambda>self.
     bnd (read_record rd sch ''1.2'' ''new'' self) (\<lambda>self.
     bnd (read_record rd sch ''1.4'' ''new'' self) (\<lambda>self.
     bnd (attr self ''IATM'') (\<lambda>IATM.
     bnd (if py_eq IATM 0 then read_user_profile rd sch self
          else if py_eq IATM 1 then read_atmosphere rd sch self
          else Inr self) (\<lambda>self.
     Inr (self\<lparr>lines := None\<rparr>))))))) = Inr self"
    unfolding read_input_rrtm_def by (cases "get_input_rrtm_file_bounds ls ''input_rrtm''") auto
  obtain start_i end_i where se: "b = (start_i, end_i)"
    by (cases b)
  from r obtain s1 s2 s3 v sA where
    "read_record rd sch ''1.1'' ''new'' (self0\<lparr>lines := Some ls, read_i := start_i\<rparr>) = Inr s1"
    "read_record rd sch ''1.2'' ''new'' s1 = Inr s2"
    "read_record rd sch ''1.4'' ''new'' s2 = Inr s3"
    "attr s3 ''IATM'' = Inr v"
    "(if py_eq v 0 then read_user_profile rd sch s3
      else if py_eq v 1 then read_atmosphere rd sch s3
      else Inr s3) = Inr sA"
    "self = sA\<lparr>lines := None\<rparr>"
    unfolding se prod.case bnd_Inr by blast
  moreover from this(4) have "attrs s3 ''IATM'' = Some v"
    by (simp add: attr_def split: option.splits)
  ultimately show ?thesis
    using b se by blast
qed

subsection \<open>The two-layer profile\<close>

lemma logical_order_two_layer:
  assumes "attrs self ''IATM'' = Some (VInt 0)" and "attrs self ''NMOL'' = Some (VInt 7)"
    and "attrs self ''IXSECT'' = Some x"
    and "py_eq x 1 \<Longrightarrow> \<exists>y. attrs self ''IXMOLS'' = Some y \<and> py_gt y 7 = Inr False"
  shows "\<exists>lo. get_logical_record_order self ''input_rrtm'' = Inr lo \<and> ''2.1.3'' \<notin> set lo"
proof (cases "py_eq x 1")
  case True
  from assms(4) [OF True] obtain y where "attrs self ''IXMOLS'' = Some y" "py_gt y 7 = Inr False"
    by blast
  with assms(1-3) True show ?thesis
    by (simp add: get_logical_record_order_def)
next
  case False
  with assms(1-3) show ?thesis
    by (simp add: get_logical_record_order_def)
qed

lemma explicit_order_two_layer:
  assumes "attrs self ''IATM'' = Some (VInt 0)" and "attrs self ''NMOL'' = Some (VInt 7)"
    and "attrs self ''NLAYRS'' = Some (VInt 2)"
    and "attrs self ''IXSECT'' = Some x"
    and "py_eq x 1 \<Longrightarrow> \<exists>y. attrs self ''IXMOLS'' = Some y \<and> py_gt y 7 = Inr False"
  shows "\<exists>ex. get_explicit_record_order self ''input_rrtm'' = Inr ex \<and>
           count_list ex ''2.1.1'' = 2 \<and> count_list ex ''2.1.2'' = 2"
proof (cases "py_eq x 1")
  case True
  from assms(5) [OF True] obtain y where "attrs self ''IXMOLS'' = Some y" "py_gt y 7 = Inr False"
    by blast
  with assms(1-4) True show ?thesis
    by (simp add: get_explicit_record_order_def py_range_two)
next
  case False
  with assms(1-4) show ?thesis
    by (simp add: get_explicit_record_order_def py_range_two)
qed

lemma LW_format_IFORM:
  "attrs s ''IFORM'' = attrs t ''IFORM''
     \<Longrightarrow> InputLW_get_format s ''2.1.1'' = InputLW_get_format t ''2.1.1''
       \<and> InputLW_get_format s ''2.1.2'' = InputLW_get_format t ''2.1.2''"
  by (simp add: InputLW_get_format_def attr_def)

lemma xs_tail_keeps:
  assumes "read_record rd InputLW ''2.2'' ''new'' sL = Inr u1"
    and "read_record rd InputLW ''2.2.1'' ''new'' u1 = Inr u2"
    and "read_record rd InputLW ''2.2.2'' ''new'' u2 = Inr u3"
    and "for_range ''NLAYRS'' (read_xs_layer rd InputLW) u3 = Inr s'"
    and "key \<in> set ([''IXSECT'', ''IFORM'', ''NLAYRS'', ''NMOL''] @ layer_names @ gas_names)"
  shows "attrs u3 key = attrs sL key" and "attrs s' key = attrs u3 key"
proof -
  from LW_xs_read_keeps [OF assms(1) _ assms(5)] LW_xs_read_keeps [OF assms(2) _ assms(5)]
    LW_xs_read_keeps [OF assms(3) _ assms(5)]
  show "attrs u3 key = attrs sL key" by simp
  from assms(4) show "attrs s' key = attrs u3 key"
    by (rule for_range_frame) (rule read_xs_layer_keeps [OF _ assms(5)])
qed

lemma distinct_profile_names: "distinct layer_names" "distinct gas_names"
  "length layer_names = 6" "length gas_names = 8"
  by (simp_all add: layer_names_def gas_names_def)

lemma profile_names_disjoint:
  "i < 6 \<Longrightarrow> layer_names ! i \<notin> set gas_names"
  "i < 8 \<Longrightarrow> gas_names ! i \<notin> set layer_names"
  "i < 6 \<Longrightarrow> layer_names ! i \<in> set ([''IXSECT'', ''IFORM'', ''NLAYRS'', ''NMOL''] @ layer_names @ gas_names)"
  "i < 8 \<Longrightarrow> gas_names ! i \<in> set ([''IXSECT'', ''IFORM'', ''NLAYRS'', ''NMOL''] @ layer_names @ gas_names)"
  "''IFORM'' \<notin> set gas_names" "''IFORM'' \<notin> set layer_names"
  "''NMOL'' \<notin> set gas_names" "''NMOL'' \<notin> set layer_names"
proof -
  show "i < 6 \<Longrightarrow> layer_names ! i \<notin> set gas_names"
    by (auto simp: layer_names_def gas_names_def less_Suc_eq numeral_eq_Suc)
  show "i < 8 \<Longrightarrow> gas_names ! i \<notin> set layer_names"
    by (auto simp: layer_names_def gas_names_def less_Suc_eq numeral_eq_Suc)
  show "i < 6 \<Longrightarrow> layer_names ! i \<in> set ([''IXSECT'', ''IFORM'', ''NLAYRS'', ''NMOL''] @ layer_names @ gas_names)"
    by (simp add: distinct_profile_names)
  show "i < 8 \<Longrightarrow> gas_names ! i \<in> set ([''IXSECT'', ''IFORM'', ''NLAYRS'', ''NMOL''] @ layer_names @ gas_names)"
    by (simp add: distinct_profile_names)
qed (simp_all add: layer_names_def gas_names_def)

text \<open>
  Claim C1: when \<^verbatim>\<open>read_input_rrtm\<close> of the longwave variant returns a document whose
  control fields are \<^verbatim>\<open>IATM=0\<close>, \<^verbatim>\<open>NLAYRS=2\<close> and \<^verbatim>\<open>NMOL=7\<close>, and the decoder hands
  back six values for a line of record \<^verbatim>\<open>2.1.1\<close> and eight for a line of record \<^verbatim>\<open>2.1.2\<close>,
  then the four lines after record \<^verbatim>\<open>2.1\<close> were decoded as \<^verbatim>\<open>2.1.1\<close>, \<^verbatim>\<open>2.1.2\<close>,
  \<^verbatim>\<open>2.1.1\<close>, \<^verbatim>\<open>2.1.2\<close>; every field of these two records is the two-element list of its
  value in the first layer's line and its value in the second layer's line, in that
  order; the logical record order of the document is defined and does not list
  \<^verbatim>\<open>2.1.3\<close>; and its explicit record order is defined and lists \<^verbatim>\<open>2.1.1\<close> and \<^verbatim>\<open>2.1.2\<close>
  exactly twice each.
\<close>

theorem read_two_layer_profile:
  assumes read: "read_input_rrtm rd InputLW ls self0 = Inr self"
    and IATM: "attrs self ''IATM'' = Some (VInt 0)"
    and NLAYRS: "attrs self ''NLAYRS'' = Some (VInt 2)"
    and NMOL: "attrs self ''NMOL'' = Some (VInt 7)"
    and f1: "InputLW_get_format self ''2.1.1'' = Inr f1"
    and f2: "InputLW_get_format self ''2.1.2'' = Inr f2"
    and w1: "full_width rd f1 6" and w2: "full_width rd f2 8"
  shows "\<exists>start_i end_i p1 g1 p2 g2.
      get_input_rrtm_file_bounds ls ''input_rrtm'' = Inr (start_i, end_i) \<and>
      rd f1 (ls ! (start_i + 4)) = Inr p1 \<and> rd f2 (ls ! (start_i + 5)) = Inr g1 \<and>
      rd f1 (ls ! (start_i + 6)) = Inr p2 \<and> rd f2 (ls ! (start_i + 7)) = Inr g2 \<and>
      (\<forall>i<6. attrs self (layer_names ! i) = Some (VList [of_scalar (p1 ! i), of_scalar (p2 ! i)])) \<and>
      (\<forall>i<8. attrs self (gas_names ! i) = Some (VList [of_scalar (g1 ! i), of_scalar (g2 ! i)])) \<and>
      (\<exists>lo. get_logical_record_order self ''input_rrtm'' = Inr lo \<and> ''2.1.3'' \<notin> set lo) \<and>
      (\<exists>ex. get_explicit_record_order self ''input_rrtm'' = Inr ex \<and>
            count_list ex ''2.1.1'' = 2 \<and> count_list ex ''2.1.2'' = 2)"
proof -
  note names = distinct_profile_names
  let ?keys = "[''IXSECT'', ''IFORM'', ''NLAYRS'', ''NMOL''] @ layer_names @ gas_names"
  from read_input_rrtm_Inr [OF read] obtain start_i end_i s1 s2 s3 v sA where
    bounds: "get_input_rrtm_file_bounds ls ''input_rrtm'' = Inr (start_i, end_i)"
    and r1: "read_record rd InputLW ''1.1'' ''new'' (self0\<lparr>lines := Some ls, read_i := start_i\<rparr>)
               = Inr s1"
    and r2: "read_record rd InputLW ''1.2'' ''new'' s1 = Inr s2"
    and r3: "read_record rd InputLW ''1.4'' ''new'' s2 = Inr s3"
    and v: "attrs s3 ''IATM'' = Some v"
    and branch: "(if py_eq v 0 then read_user_profile rd InputLW s3
                  else if py_eq v 1 then read_atmosphere rd InputLW s3
                  else Inr s3) = Inr sA"
    and self: "self = sA\<lparr>lines := None\<rparr>"
    by blast
  have final: "attrs self = attrs sA"
    using self by simp
  have "attrs sA ''IATM'' = attrs s3 ''IATM''"
    using branch by (auto split: if_splits dest: read_user_profile_IATM read_atmosphere_IATM)
  with v IATM final have "v = VInt 0"
    by simp
  with branch have prof: "read_user_profile rd InputLW s3 = Inr sA"
    by simp
  from read_user_profile_Inr [OF prof] obtain s4 sL x where
    r4: "read_record rd InputLW ''2.1'' ''new'' s3 = Inr s4"
    and loop: "for_range ''NLAYRS'' (read_layer rd InputLW) s4 = Inr sL"
    and x: "attrs sL ''IXSECT'' = Some x"
    and plain: "\<not> py_eq x 1 \<Longrightarrow> sA = sL"
    and xs: "py_eq x 1 \<Longrightarrow> \<exists>u1 u2 u3.
        read_record rd InputLW ''2.2'' ''new'' sL = Inr u1 \<and>
        read_record rd InputLW ''2.2.1'' ''new'' u1 = Inr u2 \<and>
        read_record rd InputLW ''2.2.2'' ''new'' u2 = Inr u3 \<and>
        for_range ''NLAYRS'' (read_xs_layer rd InputLW) u3 = Inr sA"
    by blast
  have tail: "attrs sA key = attrs sL key" if "key \<in> set ?keys" for key
  proof (cases "py_eq x 1")
    case True
    from xs [OF True] obtain u1 u2 u3 where
      "read_record rd InputLW ''2.2'' ''new'' sL = Inr u1"
      "read_record rd InputLW ''2.2.1'' ''new'' u1 = Inr u2"
      "read_record rd InputLW ''2.2.2'' ''new'' u2 = Inr u3"
      "for_range ''NLAYRS'' (read_xs_layer rd InputLW) u3 = Inr sA"
      by blast
    from xs_tail_keeps [OF this that] show ?thesis by simp
  next
    case False
    with plain show ?thesis by simp
  qed
  have layers: "attrs sL key = attrs s4 key" if "key \<in> set [''IFORM'', ''NLAYRS'', ''NMOL'']" for key
    using loop by (rule for_range_frame) (rule read_layer_keeps [OF _ that])
  have ctl4: "attrs s4 ''NLAYRS'' = Some (VInt 2)" "attrs s4 ''NMOL'' = Some (VInt 7)"
    and form4: "attrs s4 ''IFORM'' = attrs self ''IFORM''"
    using NLAYRS NMOL final tail [of "''NLAYRS''"] tail [of "''NMOL''"] tail [of "''IFORM''"]
      layers [of "''NLAYRS''"] layers [of "''NMOL''"] layers [of "''IFORM''"]
    by simp_all
  from loop ctl4(1) obtain a where
    l0: "read_layer rd InputLW 0 s4 = Inr a" and l1: "read_layer rd InputLW 1 a = Inr sL"
    by (rule for_range_two)
  from l0 have "attrs a ''NMOL'' = attrs s4 ''NMOL''" and forma: "attrs a ''IFORM'' = attrs s4 ''IFORM''"
    by (auto dest: read_layer_keeps)
  with ctl4 have NMOLa: "attrs a ''NMOL'' = Some (VInt 7)"
    by simp
  from l0 ctl4(2) obtain m0 where
    a1: "read_record rd InputLW ''2.1.1'' ''new'' s4 = Inr m0"
    and a2: "read_record rd InputLW ''2.1.2'' ''new'' m0 = Inr a"
    by (rule read_layer_two_reads) (simp add: mode_of_def)
  from l1 NMOLa obtain m1 where
    b1: "read_record rd InputLW ''2.1.1'' ''append'' a = Inr m1"
    and b2: "read_record rd InputLW ''2.1.2'' ''append'' m1 = Inr sL"
    by (rule read_layer_two_reads) (simp add: mode_of_def)
  have cur4: "lines s4 = Some ls" "read_i s4 = start_i + 4"
    using read_record_cursor [OF r1] read_record_cursor [OF r2] read_record_cursor [OF r3]
      read_record_cursor [OF r4]
    by simp_all
  have wide1: "length vals = length layer_names"
    if "InputLW_get_format s ''2.1.1'' = Inr fmt" "rd fmt l = Inr vals"
      "attrs s ''IFORM'' = attrs self ''IFORM''" for s fmt l vals
    using that f1 w1 LW_format_IFORM [OF that(3)] by (simp add: full_width_def names)
  have wide2: "length vals = length gas_names"
    if "InputLW_get_format s ''2.1.2'' = Inr fmt" "rd fmt l = Inr vals"
      "attrs s ''IFORM'' = attrs self ''IFORM''" for s fmt l vals
    using that f2 w2 LW_format_IFORM [OF that(3)] by (simp add: full_width_def names)
  have fmt1: "InputLW_get_format s ''2.1.1'' = Inr f1"
    and fmt2: "InputLW_get_format s ''2.1.2'' = Inr f2"
    if "attrs s ''IFORM'' = attrs self ''IFORM''" for s
    using f1 f2 LW_format_IFORM [OF that] by simp_all
  from a1 LW_fields_profile(1) names(1) cur4(1) wide1 [OF _ _ form4]
  obtain p1 where
    p1: "rd f1 (ls ! read_i s4) = Inr p1"
    and c1: "read_i m0 = read_i s4 + 1" "lines m0 = Some ls"
    and k1: "\<And>key. key \<notin> set layer_names \<Longrightarrow> attrs m0 key = attrs s4 key"
    and n1: "\<forall>i<length layer_names. attrs m0 (layer_names ! i) = Some (of_scalar (p1 ! i))"
    by (rule read_record_values) (auto simp: fmt1 [OF form4])
  have form_m0: "attrs m0 ''IFORM'' = attrs self ''IFORM''"
    using k1 [of "''IFORM''"] form4 by (simp add: profile_names_disjoint)
  from a2 LW_fields_profile(2) names(2) c1(2) wide2 [OF _ _ form_m0]
  obtain g1 where
    g1: "rd f2 (ls ! read_i m0) = Inr g1"
    and c2: "read_i a = read_i m0 + 1" "lines a = Some ls"
    and k2: "\<And>key. key \<notin> set gas_names \<Longrightarrow> attrs a key = attrs m0 key"
    and n2: "\<forall>i<length gas_names. attrs a (gas_names ! i) = Some (of_scalar (g1 ! i))"
    by (rule read_record_values) (auto simp: fmt2 [OF form_m0])
  have form_a: "attrs a ''IFORM'' = attrs self ''IFORM''"
    using k2 [of "''IFORM''"] form_m0 by (simp add: profile_names_disjoint)
  from b1 LW_fields_profile(1) names(1) c2(2) wide1 [OF _ _ form_a]
  obtain p2 where
    p2: "rd f1 (ls ! read_i a) = Inr p2"
    and c3: "read_i m1 = read_i a + 1" "lines m1 = Some ls"
    and k3: "\<And>key. key \<notin> set layer_names \<Longrightarrow> attrs m1 key = attrs a key"
    and n3: "\<forall>i<length layer_names. \<exists>old. attrs a (layer_names ! i) = Some old \<and>
        attrs m1 (layer_names ! i) = Some (VList (as_list old @ [of_scalar (p2 ! i)]))"
    by (rule read_record_values) (auto simp: fmt1 [OF form_a])
  have form_m1: "attrs m1 ''IFORM'' = attrs self ''IFORM''"
    using k3 [of "''IFORM''"] form_a by (simp add: profile_names_disjoint)
  from b2 LW_fields_profile(2) names(2) c3(2) wide2 [OF _ _ form_m1]
  obtain g2 where
    g2: "rd f2 (ls ! read_i m1) = Inr g2"
    and k4: "\<And>key. key \<notin> set gas_names \<Longrightarrow> attrs sL key = attrs m1 key"
    and n4: "\<forall>i<length gas_names. \<exists>old. attrs m1 (gas_names ! i) = Some old \<and>
        attrs sL (gas_names ! i) = Some (VList (as_list old @ [of_scalar (g2 ! i)]))"
    by (rule read_record_values) (auto simp: fmt2 [OF form_m1])
  have at: "read_i s4 = start_i + 4" "read_i m0 = start_i + 5" "read_i a = start_i + 6"
    "read_i m1 = start_i + 7"
    using cur4(2) c1(1) c2(1) c3(1) by simp_all
  have pressures: "attrs self (layer_names ! i) = Some (VList [of_scalar (p1 ! i), of_scalar (p2 ! i)])"
    if "i < 6" for i
  proof -
    from that have i: "i < length layer_names" by (simp add: names)
    from n1 i have "attrs m0 (layer_names ! i) = Some (of_scalar (p1 ! i))" by simp
    with k2 [of "layer_names ! i"] that
    have "attrs a (layer_names ! i) = Some (of_scalar (p1 ! i))"
      by (simp add: profile_names_disjoint)
    with n3 i have "attrs m1 (layer_names ! i) = Some (VList [of_scalar (p1 ! i), of_scalar (p2 ! i)])"
      by fastforce
    with k4 [of "layer_names ! i"] that
    have "attrs sL (layer_names ! i) = Some (VList [of_scalar (p1 ! i), of_scalar (p2 ! i)])"
      by (simp add: profile_names_disjoint)
    with tail [of "layer_names ! i"] final that show ?thesis
      by (simp only: profile_names_disjoint)
  qed
  have gases: "attrs self (gas_names ! i) = Some (VList [of_scalar (g1 ! i), of_scalar (g2 ! i)])"
    if "i < 8" for i
  proof -
    from that have i: "i < length gas_names" by (simp add: names)
    from n2 i have "attrs a (gas_names ! i) = Some (of_scalar (g1 ! i))" by simp
    with k3 [of "gas_names ! i"] that
    have "attrs m1 (gas_names ! i) = Some (of_scalar (g1 ! i))"
      by (simp add: profile_names_disjoint)
    with n4 i have "attrs sL (gas_names ! i) = Some (VList [of_scalar (g1 ! i), of_scalar (g2 ! i)])"
      by fastforce
    with tail [of "gas_names ! i"] final that show ?thesis
      by (simp only: profile_names_disjoint)
  qed
  have xsect: "attrs self ''IXSECT'' = Some x"
    using tail [of "''IXSECT''"] final x by simp
  have xmols: "\<exists>y. attrs self ''IXMOLS'' = Some y \<and> py_gt y 7 = Inr False" if "py_eq x 1"
  proof -
    from xs [OF that] obtain u1 u2 u3 where
      u: "read_record rd InputLW ''2.2'' ''new'' sL = Inr u1"
      "read_record rd InputLW ''2.2.1'' ''new'' u1 = Inr u2"
      "read_record rd InputLW ''2.2.2'' ''new'' u2 = Inr u3"
      "for_range ''NLAYRS'' (read_xs_layer rd InputLW) u3 = Inr sA"
      by blast
    have "attrs u3 ''NLAYRS'' = attrs sA ''NLAYRS''"
      using xs_tail_keeps(2) [OF u, of "''NLAYRS''"] by simp
    with NLAYRS final have "attrs u3 ''NLAYRS'' = Some (VInt 2)"
      by simp
    with u(4) obtain b where "read_xs_layer rd InputLW 1 b = Inr sA"
      by (rule for_range_two)
    then obtain y where "attrs sA ''IXMOLS'' = Some y" "py_gt y 7 = Inr False"
      by (rule read_xs_layer_Inr)
    with final show ?thesis by simp
  qed
  from IATM NMOL xsect xmols
  have lo: "\<exists>lo. get_logical_record_order self ''input_rrtm'' = Inr lo \<and> ''2.1.3'' \<notin> set lo"
    by (rule logical_order_two_layer)
  from IATM NMOL NLAYRS xsect xmols
  have ex: "\<exists>ex. get_explicit_record_order self ''input_rrtm'' = Inr ex \<and>
            count_list ex ''2.1.1'' = 2 \<and> count_list ex ''2.1.2'' = 2"
    by (rule explicit_order_two_layer)
  from bounds p1 g1 p2 g2 pressures gases lo ex show ?thesis
    unfolding at by blast
qed

theorem read_two_layer_profile_witness:
  "\<exists>self lo ex.
     read_input_rrtm (table_reader profile_table) InputLW profile_lines (from_dict_lazy []) = Inr self \<and>
     attrs self ''IATM'' = Some (VInt 0) \<and> attrs self ''NLAYRS'' = Some (VInt 2) \<and>
     attrs self ''NMOL'' = Some (VInt 7) \<and>
     attrs self ''PAVE'' = Some (VList [VInt 1000, VInt 900]) \<and>
     attrs self ''TAVE'' = Some (VList [VInt 290, VInt 280]) \<and>
     attrs self ''WBROAD(L)'' = Some (VList [VInt 18, VInt 28]) \<and>
     get_logical_record_order self ''input_rrtm'' = Inr lo \<and> ''2.1.3'' \<notin> set lo \<and>
     get_explicit_record_order self ''input_rrtm'' = Inr ex \<and>
     count_list ex ''2.1.1'' = 2 \<and> count_list ex ''2.1.2'' = 2"
proof -
  let ?rd = "table_reader profile_table"
  let ?f1 = "''(F10.4, F10.4, 23X, F8.3, F7.2,  7X, F8.3,   F7.2)''"
  let ?f2 = "''(8ES10.3)''"
  have "case read_input_rrtm ?rd InputLW profile_lines (from_dict_lazy []) of
          Inl e \<Rightarrow> False
        | Inr self \<Rightarrow> attrs self ''IATM'' = Some (VInt 0) \<and> attrs self ''NLAYRS'' = Some (VInt 2) \<and>
            attrs self ''NMOL'' = Some (VInt 7) \<and>
            InputLW_get_format self ''2.1.1'' = Inr ?f1 \<and>
            InputLW_get_format self ''2.1.2'' = Inr ?f2"
    by code_simp
  then obtain self where
    run: "read_input_rrtm ?rd InputLW profile_lines (from_dict_lazy []) = Inr self"
    and ctl: "attrs self ''IATM'' = Some (VInt 0)" "attrs self ''NLAYRS'' = Some (VInt 2)"
      "attrs self ''NMOL'' = Some (VInt 7)"
    and fmt: "InputLW_get_format self ''2.1.1'' = Inr ?f1" "InputLW_get_format self ''2.1.2'' = Inr ?f2"
    by (auto split: sum.splits)
  have w1: "full_width ?rd ?f1 6"
    by (auto simp: full_width_def table_reader_def profile_table_def split: option.splits if_splits)
  have w2: "full_width ?rd ?f2 8"
    by (auto simp: full_width_def table_reader_def profile_table_def split: option.splits if_splits)
  have b: "get_input_rrtm_file_bounds profile_lines ''input_rrtm'' = Inr (0, 8)"
    by code_simp
  from read_two_layer_profile [OF run ctl fmt w1 w2] b obtain p1 g1 p2 g2 lo ex where
    d: "?rd ?f1 (profile_lines ! (0 + 4)) = Inr p1" "?rd ?f2 (profile_lines ! (0 + 5)) = Inr g1"
      "?rd ?f1 (profile_lines ! (0 + 6)) = Inr p2" "?rd ?f2 (profile_lines ! (0 + 7)) = Inr g2"
    and p: "\<forall>i<6. attrs self (layer_names ! i) = Some (VList [of_scalar (p1 ! i), of_scalar (p2 ! i)])"
    and g: "\<forall>i<8. attrs self (gas_names ! i) = Some (VList [of_scalar (g1 ! i), of_scalar (g2 ! i)])"
    and lo: "get_logical_record_order self ''input_rrtm'' = Inr lo" "''2.1.3'' \<notin> set lo"
    and ex: "get_explicit_record_order self ''input_rrtm'' = Inr ex"
      "count_list ex ''2.1.1'' = 2" "count_list ex ''2.1.2'' = 2"
    by auto
  from d have vals: "p1 = map SInt [1000, 290, 1013, 295, 990, 288]"
    "p2 = map SInt [900, 280, 990, 288, 800, 270]"
    "g1 = map SInt [11, 12, 13, 14, 15, 16, 17, 18]"
    "g2 = map SInt [21, 22, 23, 24, 25, 26, 27, 28]"
    by (simp_all add: table_reader_def profile_table_def profile_lines_def)
  have "attrs self ''PAVE'' = Some (VList [VInt 1000, VInt 900])"
    using p [rule_format, of 0] by (simp add: vals layer_names_def)
  moreover have "attrs self ''TAVE'' = Some (VList [VInt 290, VInt 280])"
    using p [rule_format, of 1] by (simp add: vals layer_names_def)
  moreover have "attrs self ''WBROAD(L)'' = Some (VList [VInt 18, VInt 28])"
    using g [rule_format, of 7] by (simp add: vals gas_names_def)
  ultimately show ?thesis
    using run ctl lo ex by blast
qed

end
